theory Spec2Isabelle
  imports Complex_Main
begin

section \<open>Guess the Number: the round engine of guessnumber.py\<close>

text \<open>
  A shallow embedding of the game logic of \<^verbatim>\<open>guessnumber.py\<close>: the attempt budget
  (\<^verbatim>\<open>compute_attempts\<close>), the proximity hint (\<^verbatim>\<open>proximity_label\<close>), the input
  loop (\<^verbatim>\<open>read_int\<close>), one round (\<^verbatim>\<open>play_round\<close>), the score
  (\<^verbatim>\<open>score_formula\<close>), the best-score file (\<^verbatim>\<open>load_score\<close>,
  \<^verbatim>\<open>save_score\<close>, \<^verbatim>\<open>update_and_store_score\<close>) and the configuration checks
  of \<^verbatim>\<open>main\<close>.

  Python integers are unbounded and modelled by \<^typ>\<open>int\<close>. Every exception the code
  can raise is a value of \<open>error\<close>; a function that can raise returns
  \<open>error + 'a\<close>, with \<open>Inl\<close> for the exception.
\<close>

datatype error =
  ValueError | OverflowError | TypeError | AttributeError | EOFError | KeyboardInterrupt

subsection \<open>Python floats: the double-precision operations the code performs\<close>

text \<open>
  The code multiplies the range size by the literals \<^verbatim>\<open>0.01\<close>, \<^verbatim>\<open>0.03\<close> and
  \<^verbatim>\<open>0.07\<close> and truncates the product with \<^verbatim>\<open>int\<close>, and it takes
  \<^verbatim>\<open>math.log2\<close> of the range size. These are IEEE 754 binary64 operations: a
  Python \<^verbatim>\<open>int\<close> is first converted to the nearest double (ties to even, an
  \<^verbatim>\<open>OverflowError\<close> beyond the double range), and a product is the exact product
  rounded to the nearest double (ties to even).

  \<open>bit_length n\<close> is Python's \<^verbatim>\<open>n.bit_length()\<close>. \<open>round_sig n\<close> rounds a
  natural number to 53 significant bits, ties to even; since rounding to a fixed number of
  significant bits commutes with scaling by a power of two, it also rounds the numerator
  of \<open>n / 2 ^ e\<close>.
\<close>

fun bit_length :: "nat \<Rightarrow> nat" where
  "bit_length n = (if n = 0 then 0 else Suc (bit_length (n div 2)))"

declare bit_length.simps [simp del]

definition round_half_even :: "nat \<Rightarrow> nat \<Rightarrow> nat" where
  "round_half_even n s =
     (let q = n div 2 ^ s; r = n mod 2 ^ s
      in if 2 ^ s < 2 * r \<or> (2 * r = 2 ^ s \<and> odd q) then q + 1 else q)"

definition round_sig :: "nat \<Rightarrow> nat" where
  "round_sig n = (let s = bit_length n - 53 in round_half_even n s * 2 ^ s)"

text \<open>
  \<open>float_of_int n\<close> is the conversion of a Python \<^verbatim>\<open>int\<close> to a float, as in
  \<^verbatim>\<open>0.01 * R\<close> and \<^verbatim>\<open>math.log2(R)\<close>. The double it yields is an integer, and
  is returned as one.
\<close>

definition float_of_int :: "int \<Rightarrow> error + int" where
  "float_of_int n =
     (let m = round_sig (nat \<bar>n\<bar>)
      in if 2 ^ 1024 \<le> m then Inl OverflowError else Inr (sgn n * int m))"

text \<open>
  A float literal is written as the numerator \<open>c\<close> and the exponent \<open>e\<close> of the double
  \<open>c / 2 ^ e\<close> it denotes (\<^verbatim>\<open>float.as_integer_ratio\<close>). \<open>int_of_product (c, e) x\<close>
  is \<^verbatim>\<open>int(lit * x)\<close> for an integer-valued double \<open>x\<close>: the exact product
  \<open>c * x / 2 ^ e\<close> rounded to a double, then truncated towards zero. The product of a
  literal below one and an integer neither overflows nor is subnormal.
\<close>

definition int_of_product :: "nat \<times> nat \<Rightarrow> int \<Rightarrow> int" where
  "int_of_product lit x =
     (case lit of (c, e) \<Rightarrow> sgn x * int (round_sig (c * nat \<bar>x\<bar>) div 2 ^ e))"

definition lit_0_01 :: "nat \<times> nat" where
  "lit_0_01 = (5764607523034235, 59)"

definition lit_0_03 :: "nat \<times> nat" where
  "lit_0_03 = (1080863910568919, 55)"

definition lit_0_07 :: "nat \<times> nat" where
  "lit_0_07 = (1261007895663739, 54)"

text \<open>
  \<^verbatim>\<open>math.log2\<close> is the C library's: the source does not fix its result bit for bit.
  It is a parameter of the model: \<open>log2_double x\<close> is the double the library returns for
  the double \<open>x\<close> (both as the real numbers they denote), and \<open>log2_bigint n\<close> is what
  the interpreter computes for an \<^verbatim>\<open>int\<close> beyond the double range (it does not
  raise there).
\<close>

record mathlib =
  log2_double :: "real \<Rightarrow> real"
  log2_bigint :: "int \<Rightarrow> real"

definition math_log2 :: "mathlib \<Rightarrow> int \<Rightarrow> error + real" where
  "math_log2 L n =
     (if n \<le> 0 then Inl ValueError
      else case float_of_int n of
             Inr x \<Rightarrow> Inr (log2_double L (real_of_int x))
           | Inl _ \<Rightarrow> Inr (log2_bigint L n))"

subsection \<open>The attempt budget\<close>

text \<open>
  \<^verbatim>\<open>
  def compute_attempts(min_v, max_v, difficulty, attempts_override):
      if attempts_override is not None:
          return max(1, int(attempts_override))
      R = max_v - min_v + 1
      base = math.ceil(math.log2(R))
      if difficulty == "easy":
          return base + 2
      if difficulty == "normal":
          return base + 1
      return base
  \<close>
\<close>

definition compute_attempts ::
  "mathlib \<Rightarrow> int \<Rightarrow> int \<Rightarrow> string \<Rightarrow> int option \<Rightarrow> error + int" where
  "compute_attempts L min_v max_v difficulty attempts_override =
     (case attempts_override of
        Some k \<Rightarrow> Inr (max 1 k)
      | None \<Rightarrow>
          (let R = max_v - min_v + 1
           in case math_log2 L R of
                Inl e \<Rightarrow> Inl e
              | Inr l \<Rightarrow>
                  (let base = \<lceil>l\<rceil>
                   in if difficulty = ''easy'' then Inr (base + 2)
                      else if difficulty = ''normal'' then Inr (base + 1)
                      else Inr base)))"

subsection \<open>The proximity hint\<close>

text \<open>
  \<^verbatim>\<open>
  def proximity_label(guess, secret, min_v, max_v, strings):
      R = max_v - min_v + 1
      d = abs(guess - secret)
      if d <= max(1, int(0.01 * R)):
          return strings["very_hot"]
      if d <= max(1, int(0.03 * R)):
          return strings["hot"]
      if d <= max(1, int(0.07 * R)):
          return strings["warm"]
      return strings["cold"]
  \<close>
  The label is the key looked up in the string table.
\<close>

datatype tier = VeryHot | Hot | Warm | Cold

definition scaled :: "nat \<times> nat \<Rightarrow> int \<Rightarrow> error + int" where
  "scaled lit R =
     (case float_of_int R of Inl e \<Rightarrow> Inl e | Inr x \<Rightarrow> Inr (int_of_product lit x))"

definition proximity_label :: "int \<Rightarrow> int \<Rightarrow> int \<Rightarrow> int \<Rightarrow> error + tier" where
  "proximity_label guess secret min_v max_v =
     (let R = max_v - min_v + 1; d = \<bar>guess - secret\<bar>
      in case scaled lit_0_01 R of
           Inl e \<Rightarrow> Inl e
         | Inr t1 \<Rightarrow>
             (if d \<le> max 1 t1 then Inr VeryHot
              else (case scaled lit_0_03 R of
                      Inl e \<Rightarrow> Inl e
                    | Inr t3 \<Rightarrow>
                        (if d \<le> max 1 t3 then Inr Hot
                         else (case scaled lit_0_07 R of
                                 Inl e \<Rightarrow> Inl e
                               | Inr t7 \<Rightarrow>
                                   (if d \<le> max 1 t7 then Inr Warm else Inr Cold))))))"

subsection \<open>The score\<close>

text \<open>
  \<^verbatim>\<open>
  def score_formula(attempts_total, attempts_used):
      base = 100
      remaining = max(0, attempts_total - attempts_used)
      bonus = 10 * remaining
      return base + bonus
  \<close>
\<close>

definition score_formula :: "int \<Rightarrow> int \<Rightarrow> int" where
  "score_formula attempts_total attempts_used =
     (let base = 100;
          remaining = max 0 (attempts_total - attempts_used);
          bonus = 10 * remaining
      in base + bonus)"

subsection \<open>Configuration, input and output\<close>

text \<open>
  The fields of the parsed command line (\<^verbatim>\<open>argparse.Namespace\<close>) that the game
  logic reads. \<^verbatim>\<open>parse_args\<close> has filled in \<open>min_v\<close> and \<open>max_v\<close>.
\<close>

record config =
  min_v :: int
  max_v :: int
  difficulty :: string
  attempts :: "int option"
  proximity :: bool
  quiet :: bool
  no_score :: bool
  version :: bool

text \<open>
  What \<^verbatim>\<open>input\<close> returns: a line that \<^verbatim>\<open>int(raw.strip())\<close> accepts, with its
  value; a line it rejects (a blank line included); or an interrupt from the keyboard. The
  end of the list is the end of the input: \<^verbatim>\<open>input\<close> raises \<^verbatim>\<open>EOFError\<close>.
\<close>

datatype line = Number int | Garbage | Interrupt

text \<open>
  What the round prints, one event for each message of the string table, with the values
  the message is formatted with.
\<close>

datatype event =
  Title | Intro int int int | HelpProximity | HelpQuiet
  | Prompt int | InvalidInt | OutOfRange int int
  | TooLow | TooHigh | Proximity tier | Remaining int
  | Win int string | Lose int

text \<open>
  \<^verbatim>\<open>
  def read_int(prompt, min_v, max_v, strings):
      while True:
          try:
              raw = input(prompt)
          except KeyboardInterrupt:
              raise
          except EOFError:
              raise
          if not raw.strip():
              print(strings["invalid_int"])
              continue
          try:
              val = int(raw.strip())
          except ValueError:
              print(strings["invalid_int"])
              continue
          if val < min_v or val > max_v:
              print(strings["out_of_range"].format(min=min_v, max=max_v))
              continue
          return val
  \<close>
  The prompt is the attempt number \<open>n\<close> of \<^verbatim>\<open>f"{strings['try_label']} {used + 1}: "\<close>.
  The function returns what it printed, and the value with the rest of the input, or the
  exception.
\<close>

fun read_int :: "int \<Rightarrow> int \<Rightarrow> int \<Rightarrow> line list \<Rightarrow> event list \<times> (error + int \<times> line list)" where
  "read_int n lo hi [] = ([Prompt n], Inl EOFError)"
| "read_int n lo hi (Interrupt # rest) = ([Prompt n], Inl KeyboardInterrupt)"
| "read_int n lo hi (Garbage # rest) =
     (case read_int n lo hi rest of (out, res) \<Rightarrow> (Prompt n # InvalidInt # out, res))"
| "read_int n lo hi (Number val # rest) =
     (if val < lo \<or> val > hi
      then (case read_int n lo hi rest of (out, res) \<Rightarrow> (Prompt n # OutOfRange lo hi # out, res))
      else ([Prompt n], Inr (val, rest)))"

subsection \<open>One round\<close>

text \<open>
  \<^verbatim>\<open>
  def pick_secret(min_v, max_v, rng):
      return rng.randint(min_v, max_v)
  \<close>
  The random source is a parameter: \<open>rng a b\<close> is the number it draws from \<open>[a, b]\<close>.
  \<^verbatim>\<open>randint\<close> raises \<^verbatim>\<open>ValueError\<close> on an empty range.
\<close>

definition pick_secret :: "int \<Rightarrow> int \<Rightarrow> (int \<Rightarrow> int \<Rightarrow> int) \<Rightarrow> error + int" where
  "pick_secret lo hi rng = (if hi < lo then Inl ValueError else Inr (rng lo hi))"

text \<open>
  The body of the loop of \<^verbatim>\<open>play_round\<close>, from the guess that \<^verbatim>\<open>read_int\<close>
  returned:
  \<^verbatim>\<open>
          if guess == secret:
              won = True
              break
          if guess < secret:
              print(paint(strings["too_low"], "yellow", color_on))
          else:
              print(paint(strings["too_high"], "yellow", color_on))
          if cfg.proximity:
              prox = proximity_label(guess, secret, cfg.min_v, cfg.max_v, strings)
              print(f"({prox})")
          used += 1
          remaining = attempts_total - used
          print(strings["remaining"].format(n=remaining))
  \<close>
  It returns what it printed, and the new values of \<^verbatim>\<open>used\<close> and \<^verbatim>\<open>won\<close>, or
  the exception.
\<close>

definition guess_step ::
  "config \<Rightarrow> int \<Rightarrow> int \<Rightarrow> int \<Rightarrow> int \<Rightarrow> event list \<times> (error + int \<times> bool)" where
  "guess_step cfg secret attempts_total used guess =
     (if guess = secret then ([], Inr (used, True))
      else
        (let direction = (if guess < secret then TooLow else TooHigh)
         in if proximity cfg
            then (case proximity_label guess secret (min_v cfg) (max_v cfg) of
                    Inl e \<Rightarrow> ([direction], Inl e)
                  | Inr prox \<Rightarrow>
                      ([direction, Proximity prox, Remaining (attempts_total - (used + 1))],
                       Inr (used + 1, False)))
            else ([direction, Remaining (attempts_total - (used + 1))],
                  Inr (used + 1, False))))"

lemma guess_step_used:
  "guess_step cfg secret attempts_total used guess = (out, Inr (used', False)) \<Longrightarrow> used' = used + 1"
  by (auto simp: guess_step_def Let_def split: if_splits sum.splits)

text \<open>
  The loop \<^verbatim>\<open>while used < attempts_total\<close>, from the current value of
  \<^verbatim>\<open>used\<close>. It returns what was printed, and \<^verbatim>\<open>won\<close> and \<^verbatim>\<open>used\<close> as the
  loop leaves them, or the exception.
\<close>

function round_loop ::
  "config \<Rightarrow> int \<Rightarrow> int \<Rightarrow> int \<Rightarrow> line list \<Rightarrow> event list \<times> (error + bool \<times> int)" where
  "round_loop cfg secret attempts_total used inp =
     (if used < attempts_total
      then (case read_int (used + 1) (min_v cfg) (max_v cfg) inp of
              (out, Inl e) \<Rightarrow> (out, Inl e)
            | (out, Inr (guess, rest)) \<Rightarrow>
                (case guess_step cfg secret attempts_total used guess of
                   (fb, Inl e) \<Rightarrow> (out @ fb, Inl e)
                 | (fb, Inr (used', won)) \<Rightarrow>
                     (if won then (out @ fb, Inr (True, used'))
                      else (case round_loop cfg secret attempts_total used' rest of
                              (out', res) \<Rightarrow> (out @ fb @ out', res)))))
      else ([], Inr (False, used)))"
  by pat_completeness auto
termination
  by (relation "measure (\<lambda>(cfg, secret, attempts_total, used, inp). nat (attempts_total - used))")
    (auto dest!: guess_step_used [OF sym])

declare round_loop.simps [simp del]

text \<open>
  \<^verbatim>\<open>
  def play_round(cfg, strings, color_on, rng):
      secret = pick_secret(cfg.min_v, cfg.max_v, rng)
      attempts_total = compute_attempts(cfg.min_v, cfg.max_v, cfg.difficulty, cfg.attempts)
      if not cfg.quiet:
          print(paint(strings["title"], "bold", color_on))
          intro = strings["intro"].format(min=cfg.min_v, max=cfg.max_v, attempts=attempts_total)
          print(textwrap.fill(intro, width=88))
          if cfg.proximity:
              print(paint(strings["help_proximity"], "blue", color_on))
          if cfg.quiet:
              print(strings["help_quiet"])
      used = 0
      won = False
      while used < attempts_total:
          ...
      score = 0
      if won:
          suffix = "" if used == 1 else "s"
          msg = strings["win"].format(used=used if used else 1, suffix=suffix)
          print(paint(msg, "green", color_on))
          score = score_formula(attempts_total, used if used else 1)
      else:
          print(paint(strings["lose"].format(secret=secret), "red", color_on))
      return won, used if used else (0 if not won else 1), score
  \<close>
  \<open>intro_lines\<close> is what the block under \<^verbatim>\<open>if not cfg.quiet\<close> prints, and the loop is
  \<open>round_loop\<close> from \<open>used = 0\<close>.
\<close>

definition intro_lines :: "config \<Rightarrow> int \<Rightarrow> event list" where
  "intro_lines cfg attempts_total =
     (if \<not> quiet cfg
      then [Title, Intro (min_v cfg) (max_v cfg) attempts_total]
           @ (if proximity cfg then [HelpProximity] else [])
           @ (if quiet cfg then [HelpQuiet] else [])
      else [])"

definition play_round ::
  "mathlib \<Rightarrow> config \<Rightarrow> (int \<Rightarrow> int \<Rightarrow> int) \<Rightarrow> line list
    \<Rightarrow> event list \<times> (error + bool \<times> int \<times> int)" where
  "play_round L cfg rng inp =
     (case pick_secret (min_v cfg) (max_v cfg) rng of
        Inl e \<Rightarrow> ([], Inl e)
      | Inr secret \<Rightarrow>
          (case compute_attempts L (min_v cfg) (max_v cfg) (difficulty cfg) (attempts cfg) of
             Inl e \<Rightarrow> ([], Inl e)
           | Inr attempts_total \<Rightarrow>
               (let intro = intro_lines cfg attempts_total
                in case round_loop cfg secret attempts_total 0 inp of
                     (out, Inl e) \<Rightarrow> (intro @ out, Inl e)
                   | (out, Inr (won, used)) \<Rightarrow>
                       (if won
                        then (let suffix = (if used = 1 then [] else ''s'');
                                  shown = (if used \<noteq> 0 then used else 1)
                              in (intro @ out @ [Win shown suffix],
                                  Inr (won,
                                       (if used \<noteq> 0 then used else if \<not> won then 0 else 1),
                                       score_formula attempts_total shown)))
                        else (intro @ out @ [Lose secret],
                              Inr (won,
                                   (if used \<noteq> 0 then used else if \<not> won then 0 else 1),
                                   0))))))"

subsection \<open>The best-score file\<close>

text \<open>
  What \<^verbatim>\<open>json.load\<close> can return. \<open>JNull\<close> is Python's \<^verbatim>\<open>None\<close>. A float is a
  finite double, an infinity or a NaN (\<^verbatim>\<open>json\<close> reads \<^verbatim>\<open>Infinity\<close> and
  \<^verbatim>\<open>NaN\<close>). A dictionary is the list of its items, each key once.
\<close>

datatype pyfloat = Finite rat | Infinite | NaN

datatype json =
  JNull | JBool bool | JInt int | JFloat pyfloat | JStr string
  | JList "json list" | JDict "(string \<times> json) list"

text \<open>
  The file at \<^verbatim>\<open>score_file_path()\<close>: missing; there but not readable; readable but
  not JSON (\<^verbatim>\<open>json.load\<close> raises); or holding a JSON value. \<open>on_write\<close> is what the
  next write to it does: it succeeds; \<^verbatim>\<open>open\<close> fails and the file stays as it is; or
  \<^verbatim>\<open>open\<close> succeeds, which empties the file, and the write does not complete.
\<close>

datatype file_state = Missing | Unreadable | Malformed | Holds json

datatype write_mode = WriteOk | OpenFails | WriteFails

record disk =
  score_file :: file_state
  on_write :: write_mode

text \<open>
  \<^verbatim>\<open>
  def load_score(path):
      try:
          if not os.path.exists(path):
              return None
          with open(path, "r", encoding="utf-8") as f:
              return json.load(f)
      except Exception:
          return None

  def save_score(path, obj):
      try:
          with open(path, "w", encoding="utf-8") as f:
              json.dump(obj, f, ensure_ascii=False, indent=2)
      except Exception:
          pass
  \<close>
\<close>

definition load_score :: "disk \<Rightarrow> json" where
  "load_score d =
     (case score_file d of
        Missing \<Rightarrow> JNull
      | Unreadable \<Rightarrow> JNull
      | Malformed \<Rightarrow> JNull
      | Holds v \<Rightarrow> v)"

definition save_score :: "disk \<Rightarrow> json \<Rightarrow> disk" where
  "save_score d obj =
     (case on_write d of
        WriteOk \<Rightarrow> d\<lparr>score_file := Holds obj\<rparr>
      | OpenFails \<Rightarrow> d
      | WriteFails \<Rightarrow> d\<lparr>score_file := Malformed\<rparr>)"

text \<open>
  Python's truth value of a value (\<^verbatim>\<open>load_score(score_path) or {}\<close>), its
  \<^verbatim>\<open>.get\<close> (only a dictionary has one) and \<^verbatim>\<open>int\<close>. How \<^verbatim>\<open>int\<close> reads a
  string is a parameter, \<open>int_of_str\<close>: \<open>None\<close> where it raises \<^verbatim>\<open>ValueError\<close>.
\<close>

fun truthy :: "json \<Rightarrow> bool" where
  "truthy JNull = False"
| "truthy (JBool b) = b"
| "truthy (JInt n) = (n \<noteq> 0)"
| "truthy (JFloat x) = (x \<noteq> Finite 0)"
| "truthy (JStr s) = (s \<noteq> [])"
| "truthy (JList xs) = (xs \<noteq> [])"
| "truthy (JDict kvs) = (kvs \<noteq> [])"

fun dict_get :: "json \<Rightarrow> string \<Rightarrow> error + json" where
  "dict_get (JDict kvs) key = Inr (case map_of kvs key of None \<Rightarrow> JNull | Some v \<Rightarrow> v)"
| "dict_get _ key = Inl AttributeError"

fun py_int :: "(string \<Rightarrow> int option) \<Rightarrow> json \<Rightarrow> error + int" where
  "py_int int_of_str JNull = Inl TypeError"
| "py_int int_of_str (JBool b) = Inr (if b then 1 else 0)"
| "py_int int_of_str (JInt n) = Inr n"
| "py_int int_of_str (JFloat (Finite q)) = Inr (if 0 \<le> q then \<lfloor>q\<rfloor> else \<lceil>q\<rceil>)"
| "py_int int_of_str (JFloat Infinite) = Inl OverflowError"
| "py_int int_of_str (JFloat NaN) = Inl ValueError"
| "py_int int_of_str (JStr s) = (case int_of_str s of None \<Rightarrow> Inl ValueError | Some n \<Rightarrow> Inr n)"
| "py_int int_of_str (JList xs) = Inl TypeError"
| "py_int int_of_str (JDict kvs) = Inl TypeError"

text \<open>
  \<^verbatim>\<open>
  def update_and_store_score(score_path, new_score, min_v, max_v):
      prev_obj = load_score(score_path) or {}
      prev_best = prev_obj.get("best_score")
      is_record = prev_best is None or new_score > int(prev_best)

      if is_record:
          obj = {
              "best_score": int(new_score),
              "best_range": [min_v, max_v],
              "timestamp": int(time.time()),
          }
          save_score(score_path, obj)
          return True, prev_best, new_score
      return False, prev_best, int(prev_best)
  \<close>
  \<open>now\<close> is \<^verbatim>\<open>int(time.time())\<close>. The function returns the disk as it leaves it
  and the triple, or the exception; an exception is raised before anything is written.
\<close>

definition score_record :: "int \<Rightarrow> int \<Rightarrow> int \<Rightarrow> int \<Rightarrow> json" where
  "score_record new_score lo hi now =
     JDict [(''best_score'', JInt new_score),
            (''best_range'', JList [JInt lo, JInt hi]),
            (''timestamp'', JInt now)]"

definition update_and_store_score ::
  "(string \<Rightarrow> int option) \<Rightarrow> int \<Rightarrow> disk \<Rightarrow> int \<Rightarrow> int \<Rightarrow> int
    \<Rightarrow> error + disk \<times> bool \<times> json \<times> int" where
  "update_and_store_score int_of_str now d new_score lo hi =
     (let prev_obj = (if truthy (load_score d) then load_score d else JDict [])
      in case dict_get prev_obj ''best_score'' of
           Inl e \<Rightarrow> Inl e
         | Inr prev_best \<Rightarrow>
             (if prev_best = JNull
              then Inr (save_score d (score_record new_score lo hi now), True, prev_best, new_score)
              else (case py_int int_of_str prev_best of
                      Inl e \<Rightarrow> Inl e
                    | Inr best \<Rightarrow>
                        (if new_score > best
                         then Inr (save_score d (score_record new_score lo hi now),
                                   True, prev_best, new_score)
                         else Inr (d, False, prev_best, best)))))"

subsection \<open>The configuration checks of main\<close>

text \<open>
  \<^verbatim>\<open>
      if args.version:
          print(strings["version"].format(version=VERSION))
          return 0
      if not (args.min_v < args.max_v):
          print(strings["config_error_range"], file=sys.stderr)
          return 2
      attempts = compute_attempts(args.min_v, args.max_v, args.difficulty, args.attempts)
      if attempts < 1:
          print(strings["config_error_attempts"], file=sys.stderr)
          return 2
  \<close>
  \<open>main_checks\<close> returns the message and the exit code with which \<^verbatim>\<open>main\<close> returns
  here, or \<open>None\<close> when it goes on to play.
\<close>

datatype message = VersionText | ConfigErrorRange | ConfigErrorAttempts

definition main_checks :: "mathlib \<Rightarrow> config \<Rightarrow> error + (message \<times> int) option" where
  "main_checks L args =
     (if version args then Inr (Some (VersionText, 0))
      else if \<not> (min_v args < max_v args) then Inr (Some (ConfigErrorRange, 2))
      else (case compute_attempts L (min_v args) (max_v args) (difficulty args) (attempts args) of
              Inl e \<Rightarrow> Inl e
            | Inr n \<Rightarrow> if n < 1 then Inr (Some (ConfigErrorAttempts, 2)) else Inr None))"

subsection \<open>The states of a round, and inputs for the examples\<close>

text \<open>
  The states the loop of \<^verbatim>\<open>play_round\<close> passes through at its head: the value of
  \<^verbatim>\<open>used\<close> and the input not yet read. \<open>visits cfg secret tot s s'\<close> holds when the
  loop, started in \<open>s\<close>, comes back to its head in \<open>s'\<close>: each step reads a guess that is
  not the secret, and runs the body.
\<close>

inductive visits :: "config \<Rightarrow> int \<Rightarrow> int \<Rightarrow> int \<times> line list \<Rightarrow> int \<times> line list \<Rightarrow> bool"
  for cfg secret tot where
  start: "visits cfg secret tot s s"
| step: "visits cfg secret tot s (used, inp) \<Longrightarrow> used < tot \<Longrightarrow>
         read_int (used + 1) (min_v cfg) (max_v cfg) inp = (out, Inr (guess, rest)) \<Longrightarrow>
         guess_step cfg secret tot used guess = (fb, Inr (used', False)) \<Longrightarrow>
         visits cfg secret tot s (used', rest)"

text \<open>
  For the examples: a library whose \<^verbatim>\<open>log2\<close> is the exact logarithm; the range
  \<open>1 .. 10\<close> with five attempts; a range of \<open>2 ^ 1024\<close> numbers, the least size that
  is no double, with three attempts and the proximity hints on; a score file that holds
  a best score of 120; and one that is not JSON.
\<close>

definition exact_log2 :: mathlib where
  "exact_log2 = \<lparr>log2_double = log 2, log2_bigint = (\<lambda>n. log 2 (real_of_int n))\<rparr>"

definition example_config :: config where
  "example_config =
     \<lparr>min_v = 1, max_v = 10, difficulty = ''normal'', attempts = Some 5,
      proximity = False, quiet = False, no_score = False, version = False\<rparr>"

definition beyond_double :: int where
  "beyond_double = 2 ^ 1024"

definition huge_config :: config where
  "huge_config =
     \<lparr>min_v = 1, max_v = beyond_double, difficulty = ''normal'', attempts = Some 3,
      proximity = True, quiet = False, no_score = False, version = False\<rparr>"

definition example_disk :: disk where
  "example_disk = \<lparr>score_file = Holds (score_record 120 1 100 1700000000), on_write = WriteOk\<rparr>"

definition corrupt_disk :: disk where
  "corrupt_disk = \<lparr>score_file = Malformed, on_write = WriteOk\<rparr>"

definition list_disk :: disk where
  "list_disk = \<lparr>score_file = Holds (JList [JInt 1]), on_write = WriteOk\<rparr>"

text \<open>
  What the proofs about \<^verbatim>\<open>math.log2\<close> ask of a library: it is exact on the powers of
  two, and within \<open>2 ^ -40\<close> of the logarithm from \<open>1\<close> on (a double-precision
  \<^verbatim>\<open>log2\<close> with an error of a few units in the last place is, up to \<open>2 ^ 1024\<close>).
\<close>

definition accurate_log2 :: "mathlib \<Rightarrow> bool" where
  "accurate_log2 L \<longleftrightarrow>
     (\<forall>k::nat. log2_double L (2 ^ k) = real k)
     \<and> (\<forall>x. 1 \<le> x \<longrightarrow> \<bar>log2_double L x - log 2 x\<bar> \<le> 1 / 2 ^ 40)"

section \<open>Rounding to a double\<close>

text \<open>
  \<open>bit_length n\<close> is the number of bits of \<open>n\<close>; a number of at most 53 bits is a double;
  rounding keeps a number between any two doubles of its own binade that enclose it, and
  picks the nearer one.
\<close>

lemma bit_length_upper: "n < 2 ^ bit_length n"
proof (induction n rule: bit_length.induct)
  case (1 n)
  show ?case
  proof (cases "n = 0")
    case True
    then show ?thesis by (simp add: bit_length.simps)
  next
    case False
    with 1 have "n div 2 < 2 ^ bit_length (n div 2)" by simp
    then have "n < 2 * 2 ^ bit_length (n div 2)" by linarith
    with False show ?thesis by (simp add: bit_length.simps [of n])
  qed
qed

lemma bit_length_lower: "n \<noteq> 0 \<Longrightarrow> 2 ^ (bit_length n - 1) \<le> n"
proof (induction n rule: bit_length.induct)
  case (1 n)
  show ?case
  proof (cases "n div 2 = 0")
    case True
    with 1(2) have "n = 1" by linarith
    then show ?thesis by (simp add: bit_length.simps)
  next
    case False
    with 1 have ih: "2 ^ (bit_length (n div 2) - 1) \<le> n div 2" by simp
    from False have "bit_length (n div 2) \<noteq> 0" by (simp add: bit_length.simps [of "n div 2"])
    then obtain j where j: "bit_length (n div 2) = Suc j" by (cases "bit_length (n div 2)") auto
    from ih j have "2 * 2 ^ j \<le> n" by simp
    with 1(2) j show ?thesis by (simp add: bit_length.simps [of n])
  qed
qed

lemma bit_length_le: "n < 2 ^ k \<Longrightarrow> bit_length n \<le> k"
proof (rule ccontr)
  assume n: "n < 2 ^ k" and "\<not> bit_length n \<le> k"
  then have k: "k \<le> bit_length n - 1" and "n \<noteq> 0" by (auto simp: bit_length.simps [of n] split: if_splits)
  then have "(2::nat) ^ k \<le> 2 ^ (bit_length n - 1)" by (simp add: power_increasing)
  also have "\<dots> \<le> n" using \<open>n \<noteq> 0\<close> by (rule bit_length_lower)
  finally show False using n by simp
qed

lemma bit_length_gt: "2 ^ k \<le> n \<Longrightarrow> k < bit_length n"
proof (rule ccontr)
  assume lo: "2 ^ k \<le> n" and "\<not> k < bit_length n"
  then have "(2::nat) ^ bit_length n \<le> 2 ^ k" by (simp add: power_increasing)
  with bit_length_upper [of n] lo show False by linarith
qed

lemma bit_length_eq: "2 ^ k \<le> n \<Longrightarrow> n < 2 ^ Suc k \<Longrightarrow> bit_length n = Suc k"
  using bit_length_le [of n "Suc k"] bit_length_gt [of k n] by linarith

lemma round_sig_small: "n < 2 ^ 53 \<Longrightarrow> round_sig n = n"
proof -
  assume "n < 2 ^ 53"
  then have "bit_length n - 53 = 0" using bit_length_le [of n 53] by simp
  then show ?thesis by (simp add: round_sig_def round_half_even_def)
qed

lemma round_sig_at:
  "2 ^ (52 + s) \<le> n \<Longrightarrow> n < 2 ^ (53 + s) \<Longrightarrow> round_sig n = round_half_even n s * 2 ^ s"
proof -
  assume "2 ^ (52 + s) \<le> n" "n < 2 ^ (53 + s)"
  then have "bit_length n = Suc (52 + s)" by (intro bit_length_eq) simp_all
  then show ?thesis by (simp add: round_sig_def)
qed

lemma round_half_even_cases:
  "round_half_even n s = n div 2 ^ s \<or> round_half_even n s = n div 2 ^ s + 1"
  by (simp add: round_half_even_def Let_def)

lemma round_half_even_exact:
  "n mod 2 ^ s = 0 \<Longrightarrow> round_half_even n s = n div 2 ^ s"
  by (simp add: round_half_even_def Let_def)

lemma round_half_even_up:
  "2 ^ s < 2 * (n mod 2 ^ s) \<Longrightarrow> round_half_even n s = n div 2 ^ s + 1"
  by (simp add: round_half_even_def Let_def)

lemma round_half_even_down:
  "2 * (n mod 2 ^ s) < 2 ^ s \<Longrightarrow> round_half_even n s = n div 2 ^ s"
  by (simp add: round_half_even_def Let_def)

lemma round_sig_lower:
  assumes an: "a \<le> n" and da: "2 ^ (bit_length n - 53) dvd a"
  shows "a \<le> round_sig n"
proof -
  define s where "s = bit_length n - 53"
  define t :: nat where "t = 2 ^ s"
  have t: "0 < t" by (simp add: t_def)
  have rs: "round_sig n = round_half_even n s * t" by (simp add: round_sig_def s_def t_def Let_def)
  from da obtain a' where a': "a = a' * t" unfolding s_def [symmetric] t_def [symmetric]
    by (auto simp: dvd_def mult.commute)
  from an a' have "a' * t \<le> n" by simp
  then have "a' \<le> n div t" using t by (simp add: less_eq_div_iff_mult_less_eq)
  then have "a \<le> (n div t) * t" using a' by simp
  also have "\<dots> \<le> round_half_even n s * t"
    using round_half_even_cases [of n s] by (auto simp: t_def)
  finally show ?thesis using rs by simp
qed

lemma round_sig_upper:
  assumes nb: "n \<le> b" and db: "2 ^ (bit_length n - 53) dvd b"
  shows "round_sig n \<le> b"
proof -
  define s where "s = bit_length n - 53"
  define t :: nat where "t = 2 ^ s"
  define q where "q = n div t"
  define r where "r = n mod t"
  have t: "0 < t" by (simp add: t_def)
  have n: "n = q * t + r" by (simp add: q_def r_def)
  have rs: "round_sig n = round_half_even n s * t" by (simp add: round_sig_def s_def t_def Let_def)
  from db obtain b' where b': "b = b' * t" unfolding s_def [symmetric] t_def [symmetric]
    by (auto simp: dvd_def mult.commute)
  have "round_half_even n s * t \<le> b"
  proof (cases "r = 0")
    case True
    then have "round_half_even n s = q"
      using round_half_even_exact [of n s] by (simp add: r_def q_def t_def)
    with n True nb show ?thesis by simp
  next
    case False
    with n nb b' have "q * t < b' * t" by linarith
    then have qb: "q < b'" by simp
    have "round_half_even n s * t \<le> (q + 1) * t"
      using round_half_even_cases [of n s] by (auto simp: q_def t_def)
    also have "\<dots> \<le> b' * t" using qb by (intro mult_le_mono1) simp
    finally show ?thesis unfolding b' .
  qed
  with rs show ?thesis by simp
qed

lemma round_sig_down:
  assumes vn: "v \<le> n" and dv: "2 ^ (bit_length n - 53) dvd v"
    and near: "2 * (n - v) < 2 ^ (bit_length n - 53)"
  shows "round_sig n = v"
proof -
  define s where "s = bit_length n - 53"
  define t :: nat where "t = 2 ^ s"
  have t: "0 < t" by (simp add: t_def)
  have rs: "round_sig n = round_half_even n s * t" by (simp add: round_sig_def s_def t_def Let_def)
  from dv obtain m where m: "v = m * t" unfolding s_def [symmetric] t_def [symmetric]
    by (auto simp: dvd_def mult.commute)
  from near have near': "2 * (n - v) < t" by (simp add: s_def t_def)
  have n_eq: "n = m * t + (n - v)" using vn m by simp
  have rt: "n - v < t" using near' by linarith
  have d: "n div t = m" using rt by (subst n_eq) simp
  have r: "n mod t = n - v" using rt by (subst n_eq) simp
  have "2 * (n mod t) < t" using r near' by simp
  then have "round_half_even n s = n div t"
    using round_half_even_down [of n s] by (simp add: t_def)
  with d rs m show ?thesis by simp
qed

lemma round_sig_up:
  assumes nv: "n \<le> v" and dv: "2 ^ (bit_length n - 53) dvd v"
    and near: "2 * (v - n) < 2 ^ (bit_length n - 53)"
  shows "round_sig n = v"
proof -
  define s where "s = bit_length n - 53"
  define t :: nat where "t = 2 ^ s"
  have t: "0 < t" by (simp add: t_def)
  have rs: "round_sig n = round_half_even n s * t" by (simp add: round_sig_def s_def t_def Let_def)
  from dv obtain m where m: "v = m * t" unfolding s_def [symmetric] t_def [symmetric]
    by (auto simp: dvd_def mult.commute)
  from near have near': "2 * (v - n) < t" by (simp add: s_def t_def)
  show ?thesis
  proof (cases "n = v")
    case True
    then have "n mod t = 0" "n div t = m" using m t by simp_all
    then show ?thesis using rs m round_half_even_exact [of n s] by (simp add: t_def)
  next
    case False
    with nv have lt: "n < v" by simp
    with m t have m0: "0 < m" by (cases m) auto
    have n_eq: "n = (m - 1) * t + (t - (v - n))"
    proof -
      have "(m - 1) * t + t = v" using m m0 by (simp add: algebra_simps mult_eq_if)
      then show ?thesis using near' lt by linarith
    qed
    have rt: "t - (v - n) < t" using lt t by linarith
    have d: "n div t = m - 1"
      using rt by (subst n_eq) simp
    have r: "n mod t = t - (v - n)"
      using rt by (subst n_eq) simp
    have "t < 2 * (n mod t)" using r near' lt by linarith
    then have "round_half_even n s = n div t + 1"
      using round_half_even_up [of s n] by (simp add: t_def)
    with d m0 have "round_half_even n s = m" by simp
    with rs m show ?thesis by simp
  qed
qed

lemma round_sig_ge_pow: "2 ^ k \<le> n \<Longrightarrow> 2 ^ k \<le> round_sig n"
proof -
  assume k: "2 ^ k \<le> n"
  moreover have "0 < (2::nat) ^ k" by simp
  ultimately have n0: "n \<noteq> 0" by linarith
  have "k \<le> bit_length n - 1" using bit_length_gt [OF k] by simp
  then have "(2::nat) ^ k \<le> 2 ^ (bit_length n - 1)" by (simp add: power_increasing)
  also have "\<dots> \<le> round_sig n"
    using bit_length_lower [OF n0] by (rule round_sig_lower) (simp add: le_imp_power_dvd)
  finally show ?thesis .
qed

lemma round_sig_le_pow: "n < 2 ^ k \<Longrightarrow> round_sig n \<le> 2 ^ k"
proof -
  assume k: "n < 2 ^ k"
  have "round_sig n \<le> 2 ^ bit_length n"
    using bit_length_upper [of n] by (intro round_sig_upper) (simp_all add: le_imp_power_dvd)
  also have "\<dots> \<le> 2 ^ k" using bit_length_le [OF k] by (simp add: power_increasing)
  finally show ?thesis .
qed

lemma float_of_int_overflow: "2 ^ 1024 \<le> \<bar>n\<bar> \<Longrightarrow> float_of_int n = Inl OverflowError"
proof -
  assume "2 ^ 1024 \<le> \<bar>n\<bar>"
  then have "2 ^ 1024 \<le> nat \<bar>n\<bar>" by (simp add: le_nat_iff)
  then have "2 ^ 1024 \<le> round_sig (nat \<bar>n\<bar>)" by (rule round_sig_ge_pow)
  then show ?thesis by (simp add: float_of_int_def del: power_numeral)
qed

lemma round_sig_finite:
  assumes m: "m < 2 ^ 1024 - 2 ^ 970"
  shows "round_sig m < 2 ^ 1024"
proof (cases "m < 2 ^ 1023")
  case True
  then have "round_sig m \<le> 2 ^ 1023" by (rule round_sig_le_pow)
  also have "(2::nat) ^ 1023 < 2 ^ 1024" by (intro power_strict_increasing) simp_all
  finally show ?thesis .
next
  case False
  then have lo: "2 ^ 1023 \<le> m" by simp
  have hi: "m < 2 ^ 1024" using m by linarith
  have bl: "bit_length m = 1024" using bit_length_eq [of 1023 m] lo hi by simp
  define b :: nat where "b = 2 ^ 1024 - 2 ^ 971"
  have b_eq: "b = (2 ^ 53 - 1) * 2 ^ 971" by (simp add: b_def)
  have db: "2 ^ (bit_length m - 53) dvd b" by (simp add: bl b_eq)
  have b_lt: "b < 2 ^ 1024" by (simp add: b_def)
  show ?thesis
  proof (cases "m \<le> b")
    case True
    then have "round_sig m \<le> b" using db by (rule round_sig_upper)
    with b_lt show ?thesis by linarith
  next
    case False
    then have "b \<le> m" by simp
    moreover have "2 * (m - b) < 2 ^ (bit_length m - 53)"
      using m False by (simp add: bl b_def)
    ultimately have "round_sig m = b" using db by (intro round_sig_down)
    with b_lt show ?thesis by simp
  qed
qed

lemma float_of_int_finite:
  "\<bar>n\<bar> < 2 ^ 1024 - 2 ^ 970 \<Longrightarrow> float_of_int n = Inr (sgn n * int (round_sig (nat \<bar>n\<bar>)))"
proof -
  assume "\<bar>n\<bar> < 2 ^ 1024 - 2 ^ 970"
  then have "nat \<bar>n\<bar> < 2 ^ 1024 - 2 ^ 970" by (simp add: nat_less_iff)
  then have "round_sig (nat \<bar>n\<bar>) < 2 ^ 1024" by (rule round_sig_finite)
  then show ?thesis by (simp add: float_of_int_def del: power_numeral)
qed

lemma float_of_int_exact: "\<bar>n\<bar> < 2 ^ 53 \<Longrightarrow> float_of_int n = Inr n"
proof -
  assume n: "\<bar>n\<bar> < 2 ^ 53"
  then have "nat \<bar>n\<bar> < 2 ^ 53" by (simp add: nat_less_iff)
  then have r: "round_sig (nat \<bar>n\<bar>) = nat \<bar>n\<bar>" by (rule round_sig_small)
  have "\<bar>n\<bar> < 2 ^ 1024 - 2 ^ 970" using n by simp
  then show ?thesis by (simp add: float_of_int_finite r mult_sgn_abs)
qed

lemma ulp_cases:
  "2 ^ (bit_length p - 53) = (1::nat) \<or> 2 ^ (bit_length p - 53) * 2 ^ 52 \<le> p"
proof (cases "bit_length p \<le> 53")
  case True
  then show ?thesis by simp
next
  case False
  then have p0: "p \<noteq> 0" by (auto simp: bit_length.simps [of p] split: if_splits)
  from False have "bit_length p - 53 + 52 = bit_length p - 1" by simp
  then have "(2::nat) ^ (bit_length p - 53) * 2 ^ 52 = 2 ^ (bit_length p - 1)"
    by (simp add: power_add [symmetric] del: power_numeral)
  with bit_length_lower [OF p0] show ?thesis by (simp del: power_numeral)
qed

lemma ulp_gt: "p < 2 ^ (bit_length p - 53) * 2 ^ 53"
proof -
  have "bit_length p \<le> bit_length p - 53 + 53" by simp
  then have "(2::nat) ^ bit_length p \<le> 2 ^ (bit_length p - 53 + 53)"
    by (intro power_increasing) simp_all
  with bit_length_upper [of p] show ?thesis by (simp add: power_add del: power_numeral)
qed

lemma round_sig_div_eq:
  assumes lo: "k * 2 ^ e \<le> p"
    and hi: "p + 2 ^ (bit_length p - 53) \<le> (k + 1) * 2 ^ e"
    and se: "bit_length p - 53 \<le> e"
  shows "round_sig p div 2 ^ e = k"
proof -
  define t :: nat where "t = 2 ^ (bit_length p - 53)"
  have t0: "0 < t" by (simp add: t_def)
  have d: "t dvd j * 2 ^ e" for j
    unfolding t_def by (intro dvd_mult le_imp_power_dvd se)
  define b where "b = (k + 1) * 2 ^ e - t"
  have "k * 2 ^ e \<le> round_sig p"
    using lo d [of k] unfolding t_def by (rule round_sig_lower)
  moreover have "round_sig p \<le> b"
  proof (rule round_sig_upper)
    show "p \<le> b" using hi by (simp add: b_def t_def)
    show "2 ^ (bit_length p - 53) dvd b"
      unfolding b_def t_def [symmetric] using d [of "k + 1"] by (rule dvd_diff_nat) simp
  qed
  moreover have "b < (k + 1) * 2 ^ e"
  proof -
    have "t \<le> (k + 1) * 2 ^ e" using hi by (simp add: t_def)
    with t0 show ?thesis unfolding b_def by linarith
  qed
  ultimately show ?thesis
    by (intro div_nat_eqI) (simp_all add: mult.commute)
qed

lemma ulp_le_e:
  assumes "p < 2 ^ (53 + e)"
  shows "bit_length p - 53 \<le> e"
  using bit_length_le [OF assms] by simp

lemma thr_0_01:
  assumes n0: "0 < n" and n48: "n \<le> 2 ^ 48"
  shows "round_sig (5764607523034235 * n) div 2 ^ 59 = n div 100"
proof (rule round_sig_div_eq)
  define k where "k = n div 100"
  define r where "r = n mod 100"
  define t :: nat where "t = 2 ^ (bit_length (5764607523034235 * n) - 53)"
  have n: "n = 100 * k + r" and r: "r < 100" by (simp_all add: k_def r_def)
  have n48': "n \<le> 281474976710656" using n48 by simp
  have t: "t = 1 \<or> t * 4503599627370496 \<le> 5764607523034235 * n"
    using ulp_cases [of "5764607523034235 * n"] by (simp add: t_def)
  show "n div 100 * 2 ^ 59 \<le> 5764607523034235 * n"
    unfolding k_def [symmetric] using n by simp
  show "5764607523034235 * n + 2 ^ (bit_length (5764607523034235 * n) - 53) \<le> (n div 100 + 1) * 2 ^ 59"
    unfolding k_def [symmetric] t_def [symmetric] using n r n48' t by auto
  have "5764607523034235 * n < 2 ^ (53 + 59)" using n48' by simp
  then show "bit_length (5764607523034235 * n) - 53 \<le> 59" by (rule ulp_le_e)
qed

text \<open>
  The three literals: for a range of at most \<open>2 ^ 48\<close> numbers the truncated product is
  the exact quotient. \<open>100 * 5764607523034235 = 2 ^ 59 + 12\<close>,
  \<open>100 * 1080863910568919 = 3 * 2 ^ 55 - 4\<close> and \<open>100 * 1261007895663739 = 7 * 2 ^ 54 + 12\<close>:
  the doubles for \<^verbatim>\<open>0.01\<close> and \<^verbatim>\<open>0.07\<close> lie above the fractions and the one for
  \<^verbatim>\<open>0.03\<close> below, so that for \<^verbatim>\<open>0.03\<close> an exact multiple is reached only by rounding up.
\<close>

lemma thr_0_07:
  assumes n0: "0 < n" and n48: "n \<le> 2 ^ 48"
  shows "round_sig (1261007895663739 * n) div 2 ^ 54 = 7 * n div 100"
proof (rule round_sig_div_eq)
  define k where "k = 7 * n div 100"
  define r where "r = 7 * n mod 100"
  define t :: nat where "t = 2 ^ (bit_length (1261007895663739 * n) - 53)"
  have n: "7 * n = 100 * k + r" and r: "r < 100" by (simp_all add: k_def r_def)
  have n48': "n \<le> 281474976710656" using n48 by simp
  have t: "t = 1 \<or> t * 4503599627370496 \<le> 1261007895663739 * n"
    using ulp_cases [of "1261007895663739 * n"] by (simp add: t_def)
  show "7 * n div 100 * 2 ^ 54 \<le> 1261007895663739 * n"
    unfolding k_def [symmetric] using n by simp
  show "1261007895663739 * n + 2 ^ (bit_length (1261007895663739 * n) - 53) \<le> (7 * n div 100 + 1) * 2 ^ 54"
    unfolding k_def [symmetric] t_def [symmetric] using n r n48' t by auto
  have "1261007895663739 * n < 2 ^ (53 + 54)" using n48' by simp
  then show "bit_length (1261007895663739 * n) - 53 \<le> 54" by (rule ulp_le_e)
qed

lemma thr_0_03:
  assumes n0: "0 < n" and n48: "n \<le> 2 ^ 48"
  shows "round_sig (1080863910568919 * n) div 2 ^ 55 = 3 * n div 100"
proof -
  define p where "p = 1080863910568919 * n"
  define k where "k = 3 * n div 100"
  define r where "r = 3 * n mod 100"
  define t :: nat where "t = 2 ^ (bit_length p - 53)"
  have n: "3 * n = 100 * k + r" and r: "r < 100" by (simp_all add: k_def r_def)
  have n48': "n \<le> 281474976710656" using n48 by simp
  have t: "t = 1 \<or> t * 4503599627370496 \<le> p"
    using ulp_cases [of p] by (simp add: t_def)
  have t_gt: "p < t * 9007199254740992"
    using ulp_gt [of p] by (simp add: t_def)
  have "p < 2 ^ (53 + 55)" using n48' by (simp add: p_def)
  then have se: "bit_length p - 53 \<le> 55" by (rule ulp_le_e)
  have "round_sig p div 2 ^ 55 = k"
  proof (cases "r = 0")
    case False
    show ?thesis
    proof (rule round_sig_div_eq)
      show "k * 2 ^ 55 \<le> p" using n r n48' False by (simp add: p_def)
      show "p + 2 ^ (bit_length p - 53) \<le> (k + 1) * 2 ^ 55"
        unfolding t_def [symmetric] using n r n48' t by (auto simp: p_def)
      show "bit_length p - 53 \<le> 55" by (rule se)
    qed
  next
    case True
    have "round_sig p = k * 2 ^ 55"
    proof (rule round_sig_up)
      show "p \<le> k * 2 ^ 55" using n True by (simp add: p_def)
      show "2 ^ (bit_length p - 53) dvd k * 2 ^ 55"
        by (intro dvd_mult le_imp_power_dvd se)
      show "2 * (k * 2 ^ 55 - p) < 2 ^ (bit_length p - 53)"
        unfolding t_def [symmetric] using n True t_gt n0 by (simp add: p_def)
    qed
    then show ?thesis by simp
  qed
  then show ?thesis by (simp add: p_def k_def)
qed

lemma int_of_product_nat:
  "0 \<le> x \<Longrightarrow> int_of_product (c, e) x = int (round_sig (c * nat x) div 2 ^ e)"
  by (cases "x = 0") (simp_all add: int_of_product_def round_sig_small)

lemma scaled_small:
  assumes "1 \<le> R" and "R \<le> 2 ^ 48"
  shows "scaled lit_0_01 R = Inr (R div 100)"
    and "scaled lit_0_03 R = Inr (3 * R div 100)"
    and "scaled lit_0_07 R = Inr (7 * R div 100)"
proof -
  define n where "n = nat R"
  have R: "R = int n" and n0: "0 < n" and n48: "n \<le> 2 ^ 48"
    using assms by (simp_all add: n_def nat_le_iff)
  have "\<bar>int n\<bar> < 2 ^ 53" using assms R by simp
  then have f: "float_of_int (int n) = Inr (int n)" by (rule float_of_int_exact)
  show "scaled lit_0_01 R = Inr (R div 100)"
    unfolding R using thr_0_01 [OF n0 n48]
    by (simp add: scaled_def f lit_0_01_def int_of_product_nat zdiv_int del: power_numeral)
  show "scaled lit_0_03 R = Inr (3 * R div 100)"
    unfolding R using thr_0_03 [OF n0 n48]
    by (simp add: scaled_def f lit_0_03_def int_of_product_nat zdiv_int del: power_numeral)
  show "scaled lit_0_07 R = Inr (7 * R div 100)"
    unfolding R using thr_0_07 [OF n0 n48]
    by (simp add: scaled_def f lit_0_07_def int_of_product_nat zdiv_int del: power_numeral)
qed

lemma scaled_overflow: "2 ^ 1024 \<le> \<bar>R\<bar> \<Longrightarrow> scaled lit R = Inl OverflowError"
  by (simp add: scaled_def float_of_int_overflow del: power_numeral)

lemma scaled_finite:
  "\<bar>R\<bar> < 2 ^ 1024 - 2 ^ 970 \<Longrightarrow> \<exists>t. scaled lit R = Inr t"
  by (simp add: scaled_def float_of_int_finite del: power_numeral)

lemma proximity_label_overflow:
  "2 ^ 1024 \<le> \<bar>hi - lo + 1\<bar> \<Longrightarrow> proximity_label guess secret lo hi = Inl OverflowError"
  by (simp add: proximity_label_def scaled_overflow del: power_numeral)

lemma proximity_label_finite:
  assumes "\<bar>hi - lo + 1\<bar> < 2 ^ 1024 - 2 ^ 970"
  shows "\<exists>t. proximity_label guess secret lo hi = Inr t"
proof -
  from assms obtain t1 t3 t7 where
    "scaled lit_0_01 (hi - lo + 1) = Inr t1" "scaled lit_0_03 (hi - lo + 1) = Inr t3"
    "scaled lit_0_07 (hi - lo + 1) = Inr t7"
    using scaled_finite by blast
  then show ?thesis by (simp add: proximity_label_def Let_def)
qed

lemma float_of_int_big: "float_of_int 1000000000000057 = Inr 1000000000000057"
  by (rule float_of_int_exact) simp

lemma scaled_0_07_big: "scaled lit_0_07 1000000000000057 = Inr 70000000000004"
proof -
  have "round_sig (1261007895663739 * 1000000000000057) =
      round_half_even (1261007895663739 * 1000000000000057) 47 * 2 ^ 47"
    by (rule round_sig_at) simp_all
  then show ?thesis
    by (simp add: scaled_def float_of_int_big lit_0_07_def int_of_product_nat round_half_even_def)
qed

lemma scaled_0_03_big: "scaled lit_0_03 1000000000000057 = Inr 30000000000001"
proof -
  have "round_sig (1080863910568919 * 1000000000000057) =
      round_half_even (1080863910568919 * 1000000000000057) 47 * 2 ^ 47"
    by (rule round_sig_at) simp_all
  then show ?thesis
    by (simp add: scaled_def float_of_int_big lit_0_03_def int_of_product_nat round_half_even_def)
qed

lemma scaled_0_01_big: "scaled lit_0_01 1000000000000057 = Inr 10000000000000"
proof -
  have "round_sig (5764607523034235 * 1000000000000057) =
      round_half_even (5764607523034235 * 1000000000000057) 50 * 2 ^ 50"
    by (rule round_sig_at) simp_all
  then show ?thesis
    by (simp add: scaled_def float_of_int_big lit_0_01_def int_of_product_nat round_half_even_def)
qed

section \<open>The proximity hint\<close>

text \<open>
  C5 (amended): for a range of \<open>R = max - min + 1\<close> numbers with \<open>min < max\<close> and
  \<open>R \<le> 2 ^ 48\<close>, and \<open>d = |guess - secret|\<close>, the label is VeryHot iff
  \<open>d \<le> max 1 (R div 100)\<close>, else Hot iff \<open>d \<le> max 1 (3 * R div 100)\<close>, else Warm iff
  \<open>d \<le> max 1 (7 * R div 100)\<close>, else Cold: in double precision the three truncated
  products are the exact floors there.
\<close>

theorem proximity_label_tiers:
  assumes "lo < hi" and "hi - lo + 1 \<le> 2 ^ 48"
  shows "proximity_label guess secret lo hi =
     Inr (if \<bar>guess - secret\<bar> \<le> max 1 ((hi - lo + 1) div 100) then VeryHot
          else if \<bar>guess - secret\<bar> \<le> max 1 (3 * (hi - lo + 1) div 100) then Hot
          else if \<bar>guess - secret\<bar> \<le> max 1 (7 * (hi - lo + 1) div 100) then Warm
          else Cold)"
proof -
  have "1 \<le> hi - lo + 1" using assms by simp
  note s = scaled_small [OF this assms(2)]
  show ?thesis
    unfolding proximity_label_def Let_def s by (simp only: sum.case if_distrib [of Inr])
qed

theorem proximity_label_tiers_witness:
  "(1::int) < 100 \<and> (100::int) - 1 + 1 \<le> 2 ^ 48 \<and> proximity_label 50 57 1 100 = Inr Warm
   \<and> proximity_label 50 58 1 100 = Inr Cold"
  using proximity_label_tiers [of 1 100 50 57] proximity_label_tiers [of 1 100 50 58] by simp

text \<open>
  C5 as stated fails for large ranges, where the product is no longer the exact one: for
  the range \<open>1 .. 10 ^ 15 + 57\<close>, \<^verbatim>\<open>int(0.07 * R)\<close> is \<open>70000000000004\<close> and the floor
  of \<open>0.07 * R\<close> is \<open>70000000000003\<close>; a guess at distance \<open>70000000000004\<close> is Warm, not
  Cold. (From \<open>R = 2 ^ 1024\<close> on the conversion of \<open>R\<close> to a float raises
  \<^verbatim>\<open>OverflowError\<close>, lemma \<open>proximity_label_overflow\<close>.)
\<close>

theorem proximity_label_float_counterexample:
  "proximity_label 70000000000005 1 1 1000000000000057 = Inr Warm
   \<and> \<not> \<bar>70000000000005 - 1\<bar> \<le> max 1 (7 * (1000000000000057 - 1 + 1) div (100::int))"
  by (simp add: proximity_label_def Let_def scaled_0_01_big scaled_0_03_big scaled_0_07_big)

section \<open>One round\<close>

subsection \<open>The body of the loop and the loop\<close>

lemma guess_step_hit: "guess_step cfg secret tot used secret = ([], Inr (used, True))"
  by (simp add: guess_step_def)

lemma guess_step_miss_plain:
  "guess \<noteq> secret \<Longrightarrow> \<not> proximity cfg \<Longrightarrow>
   guess_step cfg secret tot used guess =
     ([if guess < secret then TooLow else TooHigh, Remaining (tot - (used + 1))],
      Inr (used + 1, False))"
  by (simp add: guess_step_def Let_def)

lemma guess_step_miss_hint:
  "guess \<noteq> secret \<Longrightarrow> proximity cfg \<Longrightarrow>
   proximity_label guess secret (min_v cfg) (max_v cfg) = Inr t \<Longrightarrow>
   guess_step cfg secret tot used guess =
     ([if guess < secret then TooLow else TooHigh, Proximity t, Remaining (tot - (used + 1))],
      Inr (used + 1, False))"
  by (simp add: guess_step_def Let_def)

lemma guess_step_miss_raise:
  "guess \<noteq> secret \<Longrightarrow> proximity cfg \<Longrightarrow>
   proximity_label guess secret (min_v cfg) (max_v cfg) = Inl e \<Longrightarrow>
   guess_step cfg secret tot used guess = ([if guess < secret then TooLow else TooHigh], Inl e)"
  by (simp add: guess_step_def Let_def)

lemma guess_step_miss:
  assumes "guess \<noteq> secret"
    and "proximity cfg \<longrightarrow> \<bar>max_v cfg - min_v cfg + 1\<bar> < 2 ^ 1024 - 2 ^ 970"
  shows "\<exists>fb. guess_step cfg secret tot used guess = (fb, Inr (used + 1, False))"
proof (cases "proximity cfg")
  case False
  with assms(1) show ?thesis by (simp add: guess_step_miss_plain)
next
  case True
  with assms(2) obtain t where "proximity_label guess secret (min_v cfg) (max_v cfg) = Inr t"
    using proximity_label_finite by blast
  with assms(1) True show ?thesis by (simp add: guess_step_miss_hint)
qed

lemma round_loop_done:
  "\<not> used < tot \<Longrightarrow> round_loop cfg secret tot used inp = ([], Inr (False, used))"
  by (simp add: round_loop.simps)

lemma round_loop_raise:
  "used < tot \<Longrightarrow> read_int (used + 1) (min_v cfg) (max_v cfg) inp = (out, Inl e) \<Longrightarrow>
   round_loop cfg secret tot used inp = (out, Inl e)"
  by (simp add: round_loop.simps [of _ _ _ used])

lemma round_loop_hit:
  "used < tot \<Longrightarrow> read_int (used + 1) (min_v cfg) (max_v cfg) inp = (out, Inr (secret, rest)) \<Longrightarrow>
   round_loop cfg secret tot used inp = (out, Inr (True, used))"
  by (simp add: round_loop.simps [of _ _ _ used] guess_step_hit)

lemma round_loop_miss:
  "used < tot \<Longrightarrow> read_int (used + 1) (min_v cfg) (max_v cfg) inp = (out, Inr (guess, rest)) \<Longrightarrow>
   guess_step cfg secret tot used guess = (fb, Inr (used + 1, False)) \<Longrightarrow>
   round_loop cfg secret tot used inp =
     (out @ fb @ fst (round_loop cfg secret tot (used + 1) rest),
      snd (round_loop cfg secret tot (used + 1) rest))"
  by (simp add: round_loop.simps [of _ _ _ used] split: prod.splits)

lemma round_loop_miss_raise:
  "used < tot \<Longrightarrow> read_int (used + 1) (min_v cfg) (max_v cfg) inp = (out, Inr (guess, rest)) \<Longrightarrow>
   guess_step cfg secret tot used guess = (fb, Inl e) \<Longrightarrow>
   round_loop cfg secret tot used inp = (out @ fb, Inl e)"
  by (simp add: round_loop.simps [of _ _ _ used])

lemma proximity_update_bounds [simp]:
  "min_v (cfg\<lparr>proximity := b\<rparr>) = min_v cfg" "max_v (cfg\<lparr>proximity := b\<rparr>) = max_v cfg"
  by simp_all

lemma round_loop_proximity:
  assumes fin: "\<bar>max_v cfg - min_v cfg + 1\<bar> < 2 ^ 1024 - 2 ^ 970"
  shows "snd (round_loop (cfg\<lparr>proximity := True\<rparr>) secret tot used inp) =
         snd (round_loop (cfg\<lparr>proximity := False\<rparr>) secret tot used inp)"
proof (induction "nat (tot - used)" arbitrary: used inp rule: less_induct)
  case less
  let ?on = "cfg\<lparr>proximity := True\<rparr>" and ?off = "cfg\<lparr>proximity := False\<rparr>"
  show ?case
  proof (cases "used < tot")
    case False
    then show ?thesis by (simp add: round_loop_done)
  next
    case True
    obtain out res where r: "read_int (used + 1) (min_v cfg) (max_v cfg) inp = (out, res)"
      by (cases "read_int (used + 1) (min_v cfg) (max_v cfg) inp")
    show ?thesis
    proof (cases res)
      case (Inl e)
      with True r show ?thesis by (simp add: round_loop_raise)
    next
      case (Inr gr)
      obtain guess rest where gr: "gr = (guess, rest)" by (cases gr)
      show ?thesis
      proof (cases "guess = secret")
        case hit: True
        with True r Inr gr show ?thesis by (simp add: round_loop_hit)
      next
        case miss: False
        from miss fin obtain fb1 where
          s1: "guess_step ?on secret tot used guess = (fb1, Inr (used + 1, False))"
          using guess_step_miss [of guess secret ?on tot used] by auto
        from miss obtain fb0 where
          s0: "guess_step ?off secret tot used guess = (fb0, Inr (used + 1, False))"
          using guess_step_miss [of guess secret ?off tot used] by auto
        from True have "nat (tot - (used + 1)) < nat (tot - used)" by simp
        then have ih: "snd (round_loop ?on secret tot (used + 1) rest) =
            snd (round_loop ?off secret tot (used + 1) rest)"
          by (rule less)
        from True r Inr gr s1 have
          "snd (round_loop ?on secret tot used inp) = snd (round_loop ?on secret tot (used + 1) rest)"
          by (simp add: round_loop_miss [where fb = fb1 and out = out and guess = guess and rest = rest])
        moreover from True r Inr gr s0 have
          "snd (round_loop ?off secret tot used inp) = snd (round_loop ?off secret tot (used + 1) rest)"
          by (simp add: round_loop_miss [where fb = fb0 and out = out and guess = guess and rest = rest])
        ultimately show ?thesis using ih by simp
      qed
    qed
  qed
qed

lemma round_loop_bounds:
  "round_loop cfg secret tot used inp = (out, Inr (won, used')) \<Longrightarrow>
   used \<le> used' \<and> (used \<le> tot \<longrightarrow> used' \<le> tot) \<and> (won \<longrightarrow> used' < tot)"
proof (induction "nat (tot - used)" arbitrary: used inp out rule: less_induct)
  case less
  show ?case
  proof (cases "used < tot")
    case False
    with less.prems show ?thesis by (simp add: round_loop_done)
  next
    case True
    obtain out1 res where r: "read_int (used + 1) (min_v cfg) (max_v cfg) inp = (out1, res)"
      by (cases "read_int (used + 1) (min_v cfg) (max_v cfg) inp")
    show ?thesis
    proof (cases res)
      case (Inl e)
      with True r less.prems show ?thesis by (simp add: round_loop_raise)
    next
      case (Inr gr)
      obtain guess rest where gr: "gr = (guess, rest)" by (cases gr)
      obtain fb sres where s: "guess_step cfg secret tot used guess = (fb, sres)"
        by (cases "guess_step cfg secret tot used guess")
      show ?thesis
      proof (cases sres)
        case (Inl e)
        with True r Inr gr s less.prems show ?thesis by (simp add: round_loop_miss_raise)
      next
        case step: (Inr uw)
        obtain u w where uw: "uw = (u, w)" by (cases uw)
        show ?thesis
        proof (cases w)
          case True
          with s step uw have "guess = secret" "u = used"
            by (auto simp: guess_step_def Let_def split: if_splits sum.splits)
          with \<open>used < tot\<close> r Inr gr less.prems show ?thesis by (simp add: round_loop_hit)
        next
          case False
          with s step uw have u: "u = used + 1" by (simp add: guess_step_used)
          from \<open>used < tot\<close> have m: "nat (tot - (used + 1)) < nat (tot - used)" by simp
          from \<open>used < tot\<close> r Inr gr s step uw False u less.prems
          have "round_loop cfg secret tot (used + 1) rest =
              (fst (round_loop cfg secret tot (used + 1) rest), Inr (won, used'))"
            by (simp add: round_loop_miss [where fb = fb and out = out1 and guess = guess and rest = rest]
                prod_eq_iff)
          from less.hyps [OF m this] \<open>used < tot\<close> show ?thesis by simp
        qed
      qed
    qed
  qed
qed

lemma visits_bounds:
  "visits cfg secret tot s s' \<Longrightarrow> fst s \<le> fst s' \<and> (fst s \<le> tot \<longrightarrow> fst s' \<le> tot)"
proof (induction rule: visits.induct)
  case (start s)
  show ?case by simp
next
  case (step s used inp out guess rest fb used')
  from step.hyps(4) have "used' = used + 1" by (rule guess_step_used)
  with step.hyps(2) step.IH show ?case by simp
qed

lemma visits_round_loop:
  "visits cfg secret tot s s' \<Longrightarrow>
   \<exists>pre. round_loop cfg secret tot (fst s) (snd s) =
     (pre @ fst (round_loop cfg secret tot (fst s') (snd s')),
      snd (round_loop cfg secret tot (fst s') (snd s')))"
proof (induction rule: visits.induct)
  case (start s)
  have "round_loop cfg secret tot (fst s) (snd s) =
      ([] @ fst (round_loop cfg secret tot (fst s) (snd s)),
       snd (round_loop cfg secret tot (fst s) (snd s)))"
    by simp
  then show ?case by blast
next
  case (step s used inp out guess rest fb used')
  from step.hyps(4) have u: "used' = used + 1" by (rule guess_step_used)
  from step.IH obtain pre where pre:
    "round_loop cfg secret tot (fst s) (snd s) =
      (pre @ fst (round_loop cfg secret tot used inp), snd (round_loop cfg secret tot used inp))"
    by auto
  from step.hyps(2,3,4) u have
    "round_loop cfg secret tot used inp =
      (out @ fb @ fst (round_loop cfg secret tot used' rest),
       snd (round_loop cfg secret tot used' rest))"
    by (simp add: round_loop_miss)
  with pre have
    "round_loop cfg secret tot (fst s) (snd s) =
      ((pre @ out @ fb) @ fst (round_loop cfg secret tot used' rest),
       snd (round_loop cfg secret tot used' rest))"
    by simp
  then show ?case unfolding fst_conv snd_conv by (rule exI)
qed

lemma beyond_double_ge: "2 \<le> beyond_double" "\<bar>beyond_double\<bar> = beyond_double"
  by (simp_all add: beyond_double_def)

lemma proximity_label_beyond:
  "proximity_label guess secret 1 beyond_double = Inl OverflowError"
  by (rule proximity_label_overflow) (simp add: beyond_double_def)

lemma example_step:
  "guess_step example_config 7 5 0 5 = ([TooLow, Remaining 4], Inr (0 + 1, False))"
  by (simp add: guess_step_miss_plain example_config_def)

lemma example_read:
  "read_int (0 + 1) (min_v example_config) (max_v example_config) [Number 5, Number 7]
      = ([Prompt 1], Inr (5, [Number 7]))"
  by (simp add: example_config_def)

lemma example_loop:
  "round_loop example_config 7 5 0 [Number 5, Number 7] =
     ([Prompt 1, TooLow, Remaining 4, Prompt 2], Inr (True, 1))"
proof -
  have "round_loop example_config 7 5 1 [Number 7] = ([Prompt 2], Inr (True, 1))"
    by (rule round_loop_hit) (simp_all add: example_config_def)
  moreover have "round_loop example_config 7 5 0 [Number 5, Number 7] =
      ([Prompt 1] @ [TooLow, Remaining 4] @ fst (round_loop example_config 7 5 (0 + 1) [Number 7]),
       snd (round_loop example_config 7 5 (0 + 1) [Number 7]))"
    by (rule round_loop_miss [OF _ example_read example_step]) simp
  ultimately show ?thesis by simp
qed

lemma example_round:
  "play_round exact_log2 example_config (\<lambda>a b. 7) [Number 5, Number 7] =
     ([Title, Intro 1 10 5, Prompt 1, TooLow, Remaining 4, Prompt 2, Win 1 []],
      Inr (True, 1, 140))"
  using example_loop
  by (simp add: play_round_def pick_secret_def compute_attempts_def intro_lines_def
      score_formula_def example_config_def)

subsection \<open>The score of a won round\<close>

text \<open>
  \<^verbatim>\<open>play_round\<close> is the only caller of \<^verbatim>\<open>score_formula\<close>, and calls it on a win only.
  The count it passes is the count it reports, and lies between 1 and the budget: the loop
  is left on a win only while \<open>used < attempts_total\<close>.
\<close>

lemma win_count_in_budget:
  assumes "play_round L cfg rng inp = (out, Inr (True, n, s))"
  shows "\<exists>tot. compute_attempts L (min_v cfg) (max_v cfg) (difficulty cfg) (attempts cfg) = Inr tot
           \<and> 1 \<le> n \<and> n \<le> tot \<and> s = score_formula tot n"
proof -
  from assms obtain secret where p: "pick_secret (min_v cfg) (max_v cfg) rng = Inr secret"
    by (cases "pick_secret (min_v cfg) (max_v cfg) rng") (simp_all add: play_round_def)
  from assms p obtain tot where
    c: "compute_attempts L (min_v cfg) (max_v cfg) (difficulty cfg) (attempts cfg) = Inr tot"
    by (cases "compute_attempts L (min_v cfg) (max_v cfg) (difficulty cfg) (attempts cfg)")
      (simp_all add: play_round_def)
  obtain o1 res where l: "round_loop cfg secret tot 0 inp = (o1, res)"
    by (cases "round_loop cfg secret tot 0 inp")
  from assms p c l obtain used where res: "res = Inr (True, used)"
    and n: "n = (if used \<noteq> 0 then used else 1)" and s: "s = score_formula tot n"
    by (cases res) (auto simp: play_round_def Let_def split: if_splits)
  from l res have "0 \<le> used \<and> used < tot"
    using round_loop_bounds [of cfg secret tot 0 inp o1 True used] by simp
  with n have "1 \<le> n \<and> n \<le> tot" by auto
  with c s show ?thesis by simp
qed

text \<open>
  C4: \<open>score_formula t u\<close> is \<open>100 + 10 * max 0 (t - u)\<close>. For a fixed budget \<open>t\<close> it
  never increases as the used count grows, and it is strictly decreasing on the used counts
  up to \<open>t\<close>, which are the counts of a won round: whenever \<^verbatim>\<open>play_round\<close> returns a win
  with the count \<open>n\<close> and the score \<open>s\<close>, then \<open>1 \<le> n \<le> tot\<close> for the budget \<open>tot\<close> of the
  round, and \<open>s = score_formula tot n\<close>. At the count 1 (a count of such a round exactly when
  \<open>1 \<le> t\<close>) the score is exactly \<open>100 + 10 * (t - 1)\<close>.
\<close>

theorem score_formula_decreasing:
  "score_formula t u = 100 + 10 * max 0 (t - u)
   \<and> (u \<le> u' \<longrightarrow> score_formula t u' \<le> score_formula t u)
   \<and> (u < u' \<and> u' \<le> t \<longrightarrow> score_formula t u' < score_formula t u)
   \<and> (1 \<le> t \<longrightarrow> score_formula t 1 = 100 + 10 * (t - 1))
   \<and> (play_round L cfg rng inp = (out, Inr (True, n, s)) \<longrightarrow>
        (\<exists>tot. compute_attempts L (min_v cfg) (max_v cfg) (difficulty cfg) (attempts cfg) = Inr tot
           \<and> 1 \<le> n \<and> n \<le> tot \<and> s = score_formula tot n))"
proof -
  have "score_formula t u = 100 + 10 * max 0 (t - u)"
    by (simp add: score_formula_def Let_def)
  moreover have "u \<le> u' \<longrightarrow> score_formula t u' \<le> score_formula t u"
    by (simp add: score_formula_def Let_def max_def)
  moreover have "u < u' \<and> u' \<le> t \<longrightarrow> score_formula t u' < score_formula t u"
    by (simp add: score_formula_def Let_def max_def)
  moreover have "1 \<le> t \<longrightarrow> score_formula t 1 = 100 + 10 * (t - 1)"
    by (simp add: score_formula_def Let_def max_def)
  moreover have "play_round L cfg rng inp = (out, Inr (True, n, s)) \<longrightarrow>
        (\<exists>tot. compute_attempts L (min_v cfg) (max_v cfg) (difficulty cfg) (attempts cfg) = Inr tot
           \<and> 1 \<le> n \<and> n \<le> tot \<and> s = score_formula tot n)"
    using win_count_in_budget by blast
  ultimately show ?thesis by blast
qed

text \<open>The example round, with a budget of five attempts.\<close>

theorem score_formula_decreasing_witness:
  "play_round exact_log2 example_config (\<lambda>a b. 7) [Number 5, Number 7] =
     ([Title, Intro 1 10 5, Prompt 1, TooLow, Remaining 4, Prompt 2, Win 1 []],
      Inr (True, 1, 140))
   \<and> compute_attempts exact_log2 1 10 ''normal'' (Some 5) = Inr 5
   \<and> score_formula 5 1 = 140 \<and> score_formula 5 2 = 130 \<and> score_formula 5 5 = 100
   \<and> score_formula 5 2 < score_formula 5 1
   \<and> score_formula 5 1 = 100 + 10 * (5 - 1)"
  using score_formula_decreasing [of 5 1 2 exact_log2 example_config "\<lambda>a b. 7"
      "[Number 5, Number 7]" "[Title, Intro 1 10 5, Prompt 1, TooLow, Remaining 4, Prompt 2, Win 1 []]"
      1 140] example_round
  by (simp add: compute_attempts_def score_formula_def)

subsection \<open>The count reported on a win\<close>

text \<open>
  A win after \<open>k\<close> wrong guesses: the loop is left by \<^verbatim>\<open>break\<close> before the counter is
  incremented, so the round reports \<open>k\<close>, except that 0 is reported as 1.
\<close>

lemma win_after_misses:
  assumes v: "visits cfg secret tot (0, inp) (k, inp')" and k: "k < tot"
    and r: "read_int (k + 1) (min_v cfg) (max_v cfg) inp' = (out, Inr (secret, rest))"
    and p: "pick_secret (min_v cfg) (max_v cfg) rng = Inr secret"
    and c: "compute_attempts L (min_v cfg) (max_v cfg) (difficulty cfg) (attempts cfg) = Inr tot"
  shows "snd (play_round L cfg rng inp) =
     Inr (True, (if k = 0 then 1 else k), score_formula tot (if k = 0 then 1 else k))"
proof -
  from k r have "round_loop cfg secret tot k inp' = (out, Inr (True, k))"
    by (rule round_loop_hit)
  with visits_round_loop [OF v] obtain pre where
    "round_loop cfg secret tot 0 inp = (pre @ out, Inr (True, k))"
    by auto
  with p c show ?thesis by (simp add: play_round_def Let_def)
qed

text \<open>
  C2: when the very first guess that \<^verbatim>\<open>read_int\<close> returns is the secret (the budget
  \<open>tot\<close> being at least 1, so that a guess is read at all), the loop leaves the counter at
  \<open>0\<close>, and the round reports \<open>1\<close>: in the win message, in the returned triple, and as
  the count the score is computed from.
\<close>

theorem first_guess_win_reports_one:
  assumes "pick_secret (min_v cfg) (max_v cfg) rng = Inr secret"
    and "compute_attempts L (min_v cfg) (max_v cfg) (difficulty cfg) (attempts cfg) = Inr tot"
    and "read_int 1 (min_v cfg) (max_v cfg) inp = (out, Inr (secret, rest))"
    and "0 < tot"
  shows "round_loop cfg secret tot 0 inp = (out, Inr (True, 0))
    \<and> play_round L cfg rng inp =
        (intro_lines cfg tot @ out @ [Win 1 ''s''], Inr (True, 1, score_formula tot 1))"
proof -
  from assms(3,4) have loop: "round_loop cfg secret tot 0 inp = (out, Inr (True, 0))"
    by (simp add: round_loop_hit)
  with assms(1,2) show ?thesis by (simp add: play_round_def)
qed

text \<open>
  The range \<open>1 .. 10\<close> with five attempts and the secret \<open>7\<close>: after a rejected line,
  the first guess is \<open>7\<close>.
\<close>

theorem first_guess_win_reports_one_witness:
  "pick_secret (min_v example_config) (max_v example_config) (\<lambda>a b. 7) = Inr 7
   \<and> compute_attempts exact_log2 (min_v example_config) (max_v example_config)
        (difficulty example_config) (attempts example_config) = Inr 5
   \<and> read_int 1 (min_v example_config) (max_v example_config) [Garbage, Number 7]
        = ([Prompt 1, InvalidInt, Prompt 1], Inr (7, []))
   \<and> play_round exact_log2 example_config (\<lambda>a b. 7) [Garbage, Number 7] =
        ([Title, Intro 1 10 5, Prompt 1, InvalidInt, Prompt 1, Win 1 ''s''], Inr (True, 1, 140))"
proof -
  have h1: "pick_secret (min_v example_config) (max_v example_config) (\<lambda>a b. 7) = Inr 7"
    by (simp add: pick_secret_def example_config_def)
  have h2: "compute_attempts exact_log2 (min_v example_config) (max_v example_config)
        (difficulty example_config) (attempts example_config) = Inr 5"
    by (simp add: compute_attempts_def example_config_def)
  have h3: "read_int 1 (min_v example_config) (max_v example_config) [Garbage, Number 7]
        = ([Prompt 1, InvalidInt, Prompt 1], Inr (7, []))"
    by (simp add: example_config_def)
  have h4: "(0::int) < 5" by simp
  have i: "intro_lines example_config 5 = [Title, Intro 1 10 5]"
    by (simp add: intro_lines_def example_config_def)
  have s: "score_formula 5 1 = 140" by (simp add: score_formula_def)
  from first_guess_win_reports_one [OF h1 h2 h3 h4] h1 h2 h3 show ?thesis
    by (simp add: i s)
qed

text \<open>
  C1, at the input of the specification's example: in the range \<open>1 .. 10\<close> with five attempts and
  the secret \<open>7\<close>, the guess \<open>5\<close> and then \<open>7\<close>. The winning guess is prompted as
  attempt 2, and the round reports 1 used attempt and the score \<open>score_formula 5 1 = 140\<close>,
  where the claim has 2 and \<open>score_formula 5 2 = 130\<close>: the loop leaves on the winning guess
  before it counts it, and only a count of \<open>0\<close> is raised to \<open>1\<close>.
\<close>

theorem second_guess_win_reports_one:
  "play_round exact_log2 example_config (\<lambda>a b. 7) [Number 5, Number 7] =
     ([Title, Intro 1 10 5, Prompt 1, TooLow, Remaining 4, Prompt 2, Win 1 []],
      Inr (True, 1, score_formula 5 1))
   \<and> score_formula 5 1 = 140 \<and> score_formula 5 2 = 130"
  using example_round by (simp add: score_formula_def)

subsection \<open>The proximity hints\<close>

text \<open>
  C6 (amended): as long as the range size \<open>max - min + 1\<close> converts to a float (it is
  below \<open>2 ^ 1024 - 2 ^ 970\<close>), a round with the proximity hints on and the same round
  with the hints off, on the same secret and the same input, end the same way: the same
  exception, or the same outcome, the same reported count of attempts and the same score.
\<close>

theorem proximity_is_advisory:
  assumes "\<bar>max_v cfg - min_v cfg + 1\<bar> < 2 ^ 1024 - 2 ^ 970"
  shows "snd (play_round L (cfg\<lparr>proximity := True\<rparr>) rng inp) =
         snd (play_round L (cfg\<lparr>proximity := False\<rparr>) rng inp)"
proof (cases "pick_secret (min_v cfg) (max_v cfg) rng")
  case (Inl e)
  then show ?thesis by (simp add: play_round_def)
next
  case secret: (Inr secret)
  show ?thesis
  proof (cases "compute_attempts L (min_v cfg) (max_v cfg) (difficulty cfg) (attempts cfg)")
    case (Inl e)
    with secret show ?thesis by (simp add: play_round_def)
  next
    case (Inr tot)
    let ?on = "round_loop (cfg\<lparr>proximity := True\<rparr>) secret tot 0 inp"
    let ?off = "round_loop (cfg\<lparr>proximity := False\<rparr>) secret tot 0 inp"
    have eq: "snd ?on = snd ?off" using assms by (rule round_loop_proximity)
    obtain o1 r1 where on: "?on = (o1, r1)" by (cases ?on)
    obtain o0 r0 where off: "?off = (o0, r0)" by (cases ?off)
    from eq on off have r: "r1 = r0" by simp
    show ?thesis using secret Inr on off r
      by (cases r0) (auto simp: play_round_def Let_def)
  qed
qed

text \<open>The example round, with the hints on.\<close>

theorem proximity_is_advisory_witness:
  "\<bar>max_v example_config - min_v example_config + 1\<bar> < 2 ^ 1024 - 2 ^ 970
   \<and> snd (play_round exact_log2 (example_config\<lparr>proximity := True\<rparr>) (\<lambda>a b. 7) [Number 5, Number 7])
       = Inr (True, 1, 140)"
proof -
  have h: "\<bar>max_v example_config - min_v example_config + 1\<bar> < 2 ^ 1024 - 2 ^ 970"
    by (simp add: example_config_def)
  have e: "example_config\<lparr>proximity := False\<rparr> = example_config"
    by (simp add: example_config_def)
  from proximity_is_advisory [OF h, of exact_log2 "\<lambda>a b. 7" "[Number 5, Number 7]"] h
  show ?thesis by (simp add: e example_round)
qed

text \<open>
  C6 as stated fails for a range of \<open>2 ^ 1024\<close> numbers: with the hints on the first
  wrong guess raises \<^verbatim>\<open>OverflowError\<close> (\<^verbatim>\<open>0.01 * R\<close> converts \<open>R\<close> to a float), and
  the round is not played out; with the hints off the second guess wins.
\<close>

theorem proximity_overflow_counterexample:
  "snd (play_round exact_log2 huge_config (\<lambda>a b. 1) [Number 2, Number 1]) = Inl OverflowError
   \<and> snd (play_round exact_log2 (huge_config\<lparr>proximity := False\<rparr>) (\<lambda>a b. 1) [Number 2, Number 1])
       = Inr (True, 1, 120)"
proof -
  let ?off = "huge_config\<lparr>proximity := False\<rparr>"
  have r1: "read_int (0 + 1) (min_v huge_config) (max_v huge_config) [Number 2, Number 1]
      = ([Prompt 1], Inr (2, [Number 1]))"
    using beyond_double_ge by (simp add: huge_config_def)
  have s1: "guess_step huge_config 1 3 0 2 = ([TooHigh], Inl OverflowError)"
    using guess_step_miss_raise [of 2 1 huge_config OverflowError 3 0]
    by (simp add: huge_config_def proximity_label_beyond)
  have on: "round_loop huge_config 1 3 0 [Number 2, Number 1] = ([Prompt 1] @ [TooHigh], Inl OverflowError)"
    by (rule round_loop_miss_raise [OF _ r1 s1]) simp
  have r1': "read_int (0 + 1) (min_v ?off) (max_v ?off) [Number 2, Number 1]
      = ([Prompt 1], Inr (2, [Number 1]))"
    using beyond_double_ge by (simp add: huge_config_def)
  have s0: "guess_step ?off 1 3 0 2 = ([TooHigh, Remaining 2], Inr (0 + 1, False))"
    by (simp add: guess_step_miss_plain huge_config_def)
  have l2: "round_loop ?off 1 3 1 [Number 1] = ([Prompt 2], Inr (True, 1))"
    by (rule round_loop_hit) (use beyond_double_ge in \<open>simp_all add: huge_config_def\<close>)
  have "round_loop ?off 1 3 0 [Number 2, Number 1] =
      ([Prompt 1] @ [TooHigh, Remaining 2] @ fst (round_loop ?off 1 3 (0 + 1) [Number 1]),
       snd (round_loop ?off 1 3 (0 + 1) [Number 1]))"
    by (rule round_loop_miss [OF _ r1' s0]) simp
  with l2 have off: "round_loop ?off 1 3 0 [Number 2, Number 1] =
      ([Prompt 1, TooHigh, Remaining 2, Prompt 2], Inr (True, 1))"
    by simp
  have p: "pick_secret 1 beyond_double (\<lambda>a b. 1) = Inr 1"
    using beyond_double_ge by (simp add: pick_secret_def)
  show ?thesis
    using on off p
    by (simp add: play_round_def compute_attempts_def score_formula_def huge_config_def)
qed

subsection \<open>The attempt counter\<close>

text \<open>
  C7 (amended): a guess other than the secret, submitted while \<open>used < tot\<close>, raises
  \<open>used\<close> by exactly 1 and leaves \<open>tot - used\<close> at least 0, provided the hints are
  off or the range size converts to a float; from one state of the loop to a later one
  \<open>used\<close> never decreases, and \<open>0 \<le> used \<le> tot\<close> is kept; and the loop, started at
  \<open>0\<close> with a budget of at least 0, leaves \<open>used\<close> between \<open>0\<close> and \<open>tot\<close>.
\<close>

theorem attempts_counter_invariant:
  "(guess \<noteq> secret \<and> used < tot
      \<and> (proximity cfg \<longrightarrow> \<bar>max_v cfg - min_v cfg + 1\<bar> < 2 ^ 1024 - 2 ^ 970)
     \<longrightarrow> (\<exists>fb. guess_step cfg secret tot used guess = (fb, Inr (used + 1, False)))
         \<and> 0 \<le> tot - (used + 1))
   \<and> (visits cfg secret tot (u, i) (u', i')
     \<longrightarrow> u \<le> u' \<and> (0 \<le> u \<and> u \<le> tot \<longrightarrow> 0 \<le> u' \<and> u' \<le> tot))
   \<and> (round_loop cfg secret tot 0 inp = (out, Inr (won, n)) \<and> 0 \<le> tot
     \<longrightarrow> 0 \<le> n \<and> n \<le> tot)"
proof (intro conjI impI)
  assume a: "guess \<noteq> secret \<and> used < tot
      \<and> (proximity cfg \<longrightarrow> \<bar>max_v cfg - min_v cfg + 1\<bar> < 2 ^ 1024 - 2 ^ 970)"
  then show "\<exists>fb. guess_step cfg secret tot used guess = (fb, Inr (used + 1, False))"
    by (intro guess_step_miss) simp_all
  from a show "0 \<le> tot - (used + 1)" by simp
next
  assume v: "visits cfg secret tot (u, i) (u', i')"
  from visits_bounds [OF v] show "u \<le> u'" by simp
  assume "0 \<le> u \<and> u \<le> tot"
  with visits_bounds [OF v] show "0 \<le> u'" "u' \<le> tot" by simp_all
next
  assume "round_loop cfg secret tot 0 inp = (out, Inr (won, n)) \<and> 0 \<le> tot"
  with round_loop_bounds [of cfg secret tot 0 inp out won n] show "0 \<le> n" "n \<le> tot"
    by simp_all
qed

text \<open>The example round: one wrong guess takes the counter from 0 to 1.\<close>

theorem attempts_counter_invariant_witness:
  "(\<exists>fb. guess_step example_config 7 5 0 5 = (fb, Inr (0 + 1, False)))
   \<and> visits example_config 7 5 (0, [Number 5, Number 7]) (1, [Number 7])
   \<and> round_loop example_config 7 5 0 [Number 5, Number 7]
       = ([Prompt 1, TooLow, Remaining 4, Prompt 2], Inr (True, 1))
   \<and> (0::int) \<le> 1 \<and> (1::int) \<le> 5"
proof -
  have v: "visits example_config 7 5 (0, [Number 5, Number 7]) (1, [Number 7])"
    using visits.step [OF visits.start _ example_read example_step] by simp
  have p: "\<not> proximity example_config" by (simp add: example_config_def)
  from attempts_counter_invariant
    [of 5 7 0 5 example_config 0 "[Number 5, Number 7]" 1 "[Number 7]"
        "[Number 5, Number 7]" "[Prompt 1, TooLow, Remaining 4, Prompt 2]" True 1]
    v example_loop p
  show ?thesis by simp
qed

text \<open>
  C7 as stated fails for a range of \<open>2 ^ 1024\<close> numbers with the hints on: the guess
  \<open>2\<close> is in range and is not the secret \<open>1\<close>, and the body of the loop raises
  \<^verbatim>\<open>OverflowError\<close> after the direction is printed, before \<^verbatim>\<open>used\<close> is increased.
\<close>

theorem wrong_guess_overflow_counterexample:
  "2 \<noteq> (1::int) \<and> (0::int) < 3 \<and> 1 \<le> (2::int) \<and> 2 \<le> max_v huge_config
   \<and> guess_step huge_config 1 3 0 2 = ([TooHigh], Inl OverflowError)"
  using guess_step_miss_raise [of 2 1 huge_config OverflowError 3 0] beyond_double_ge
  by (simp add: huge_config_def proximity_label_beyond)

section \<open>The best-score file\<close>

lemma load_score_absent:
  "score_file d = Missing \<or> score_file d = Unreadable \<or> score_file d = Malformed
   \<Longrightarrow> load_score d = JNull"
  by (auto simp: load_score_def)

lemma update_no_record:
  "load_score d = JNull \<Longrightarrow>
   update_and_store_score int_of_str now d new_score lo hi =
     Inr (save_score d (score_record new_score lo hi now), True, JNull, new_score)"
  by (simp add: update_and_store_score_def)

lemma update_not_better:
  assumes "load_score d = JDict kvs" and "map_of kvs ''best_score'' = Some (JInt best)"
    and "new_score \<le> best"
  shows "update_and_store_score int_of_str now d new_score lo hi = Inr (d, False, JInt best, best)"
proof -
  from assms(2) have "kvs \<noteq> []" by auto
  with assms show ?thesis by (simp add: update_and_store_score_def)
qed

lemma update_better:
  assumes "load_score d = JDict kvs" and "map_of kvs ''best_score'' = Some (JInt best)"
    and "best < new_score"
  shows "update_and_store_score int_of_str now d new_score lo hi =
     Inr (save_score d (score_record new_score lo hi now), True, JInt best, new_score)"
proof -
  from assms(2) have "kvs \<noteq> []" by auto
  with assms show ?thesis by (simp add: update_and_store_score_def)
qed

lemma load_after_save:
  "on_write d = WriteOk \<Longrightarrow> load_score (save_score d obj) = obj"
  by (simp add: load_score_def save_score_def)

lemma score_record_fields:
  "dict_get (score_record new_score lo hi now) ''best_score'' = Inr (JInt new_score)"
  "dict_get (score_record new_score lo hi now) ''best_range'' = Inr (JList [JInt lo, JInt hi])"
  "dict_get (score_record new_score lo hi now) ''timestamp'' = Inr (JInt now)"
  by (simp_all add: score_record_def)

text \<open>
  A file that is valid JSON but not a record is returned by \<^verbatim>\<open>load_score\<close> as it is, and the
  update then raises: a list has no \<^verbatim>\<open>get\<close>, and a \<^verbatim>\<open>best_score\<close> that is a string
  \<^verbatim>\<open>int\<close> cannot read is a \<^verbatim>\<open>ValueError\<close>.
\<close>

lemma update_on_other_json:
  "score_file d = Holds (JList [JInt 1]) \<Longrightarrow>
   update_and_store_score int_of_str now d new_score lo hi = Inl AttributeError"
  by (simp add: update_and_store_score_def load_score_def)

lemma update_on_text_score:
  "score_file d = Holds (JDict [(''best_score'', JStr s)]) \<Longrightarrow> int_of_str s = None \<Longrightarrow>
   update_and_store_score int_of_str now d new_score lo hi = Inl ValueError"
  by (simp add: update_and_store_score_def load_score_def)

text \<open>
  C8: when the file holds a record whose \<^verbatim>\<open>best_score\<close> is the integer \<open>best\<close>, and
  \<open>new_score \<le> best\<close>, the update reports no record, with the previous best as the
  current best, and returns the disk as it found it; a repeated update finds the same disk
  and gives the same result.
\<close>

theorem non_improving_update_keeps_store:
  assumes "load_score d = JDict kvs" and "map_of kvs ''best_score'' = Some (JInt best)"
    and "new_score \<le> best"
  shows "update_and_store_score int_of_str now d new_score lo hi = Inr (d, False, JInt best, best)
    \<and> (case update_and_store_score int_of_str now d new_score lo hi of
          Inl e \<Rightarrow> False
        | Inr (d', r) \<Rightarrow>
            d' = d \<and> update_and_store_score int_of_str now' d' new_score lo hi = Inr (d', r))"
  using assms by (simp add: update_not_better)

text \<open>A stored best score of 120, and a new score of 110.\<close>

theorem non_improving_update_keeps_store_witness:
  "load_score example_disk = score_record 120 1 100 1700000000
   \<and> dict_get (load_score example_disk) ''best_score'' = Inr (JInt 120)
   \<and> (110::int) \<le> 120
   \<and> update_and_store_score (\<lambda>s. None) 1700000100 example_disk 110 1 100
       = Inr (example_disk, False, JInt 120, 120)"
proof -
  have l: "load_score example_disk =
      JDict [(''best_score'', JInt 120), (''best_range'', JList [JInt 1, JInt 100]),
             (''timestamp'', JInt 1700000000)]"
    by (simp add: load_score_def example_disk_def score_record_def)
  have m: "map_of [(''best_score'', JInt 120), (''best_range'', JList [JInt 1, JInt 100]),
             (''timestamp'', JInt 1700000000)] ''best_score'' = Some (JInt 120)"
    by simp
  have h: "(110::int) \<le> 120" by simp
  from non_improving_update_keeps_store [OF l m h, of "\<lambda>s. None" 1700000100 1 100] l
  show ?thesis by (simp add: score_record_def)
qed

text \<open>
  \<open>load_score\<close> returns \<^verbatim>\<open>None\<close> when the file is missing, cannot be read or is
  not JSON; an update that finds \<^verbatim>\<open>None\<close> reports a record with no previous best and the
  new score as the current best, and saves the record of the new score; when the write
  succeeds the file then holds that record, whose \<^verbatim>\<open>best_score\<close> is the new score and
  whose \<^verbatim>\<open>best_range\<close> is \<open>[lo, hi]\<close>. (\<^verbatim>\<open>save_score\<close> swallows a failed write: the
  result is the same and the file does not hold the record.)
\<close>

lemma absent_store_sets_record:
  "(score_file d = Missing \<or> score_file d = Unreadable \<or> score_file d = Malformed
      \<longrightarrow> load_score d = JNull)
   \<and> (load_score d = JNull \<longrightarrow>
        update_and_store_score int_of_str now d new_score lo hi =
          Inr (save_score d (score_record new_score lo hi now), True, JNull, new_score))
   \<and> (on_write d = WriteOk \<longrightarrow>
        load_score (save_score d (score_record new_score lo hi now))
          = score_record new_score lo hi now)
   \<and> dict_get (score_record new_score lo hi now) ''best_score'' = Inr (JInt new_score)
   \<and> dict_get (score_record new_score lo hi now) ''best_range'' = Inr (JList [JInt lo, JInt hi])"
  by (simp add: load_score_absent update_no_record load_after_save score_record_fields)

text \<open>A file that is not JSON, on a disk that can be written.\<close>

lemma absent_store_sets_record_example:
  "score_file corrupt_disk = Malformed \<and> on_write corrupt_disk = WriteOk
   \<and> load_score corrupt_disk = JNull
   \<and> update_and_store_score (\<lambda>s. None) 1700000000 corrupt_disk 120 1 100 =
       Inr (\<lparr>score_file = Holds (score_record 120 1 100 1700000000), on_write = WriteOk\<rparr>,
            True, JNull, 120)
   \<and> load_score (save_score corrupt_disk (score_record 120 1 100 1700000000))
       = score_record 120 1 100 1700000000"
proof -
  have f: "score_file corrupt_disk = Malformed" and w: "on_write corrupt_disk = WriteOk"
    by (simp_all add: corrupt_disk_def)
  have s: "save_score corrupt_disk (score_record 120 1 100 1700000000) =
      \<lparr>score_file = Holds (score_record 120 1 100 1700000000), on_write = WriteOk\<rparr>"
    by (simp add: save_score_def corrupt_disk_def)
  from absent_store_sets_record [of corrupt_disk "\<lambda>s. None" 1700000000 120 1 100] f w s
  show ?thesis by simp
qed

text \<open>
  C9, at a score file that holds the JSON list \<^verbatim>\<open>[1]\<close>, after a round won with the score
  120 in the range \<open>1 .. 100\<close>: \<^verbatim>\<open>load_score\<close> does not return \<^verbatim>\<open>None\<close> but the
  list, although it is declared to return \<^verbatim>\<open>Optional[dict]\<close>; the update then calls
  \<^verbatim>\<open>.get\<close> on the list and raises \<^verbatim>\<open>AttributeError\<close>, where the claim has the file
  treated as absent and the update reporting a record. A file that is not JSON at all is
  caught by the \<^verbatim>\<open>except Exception\<close> of \<^verbatim>\<open>load_score\<close>, and the same update sets the
  record.
\<close>

theorem wrong_shape_store_raises:
  "load_score list_disk = JList [JInt 1]
   \<and> update_and_store_score int_of_str 1700000000 list_disk 120 1 100 = Inl AttributeError
   \<and> update_and_store_score int_of_str 1700000000 corrupt_disk 120 1 100 =
       Inr (\<lparr>score_file = Holds (score_record 120 1 100 1700000000), on_write = WriteOk\<rparr>,
            True, JNull, 120)"
  by (simp add: update_and_store_score_def load_score_def save_score_def list_disk_def
      corrupt_disk_def)

section \<open>The attempt budget\<close>

lemma float_of_int_ge_two:
  assumes "2 \<le> n" and "float_of_int n = Inr x"
  shows "2 \<le> x"
proof -
  from assms(1) have "2 ^ 1 \<le> nat \<bar>n\<bar>" by simp
  then have "2 ^ 1 \<le> round_sig (nat \<bar>n\<bar>)" by (rule round_sig_ge_pow)
  with assms show ?thesis by (auto simp: float_of_int_def Let_def split: if_splits)
qed

lemma math_log2_positive:
  assumes "\<forall>x. 2 \<le> x \<longrightarrow> 0 < log2_double L x" and "\<forall>n. 2 \<le> n \<longrightarrow> 0 < log2_bigint L n"
    and "2 \<le> n"
  shows "\<exists>l. math_log2 L n = Inr l \<and> 0 < l"
proof (cases "float_of_int n")
  case (Inl e)
  with assms show ?thesis by (simp add: math_log2_def)
next
  case (Inr x)
  with assms(3) have "2 \<le> x" by (rule float_of_int_ge_two)
  then have "2 \<le> real_of_int x" by simp
  with assms(1) have "0 < log2_double L (real_of_int x)" by blast
  with Inr assms(3) show ?thesis by (simp add: math_log2_def)
qed

lemma compute_attempts_positive:
  assumes "\<forall>x. 2 \<le> x \<longrightarrow> 0 < log2_double L x" and "\<forall>n. 2 \<le> n \<longrightarrow> 0 < log2_bigint L n"
    and "lo < hi"
  shows "\<exists>n. compute_attempts L lo hi d ov = Inr n \<and> 1 \<le> n"
proof (cases ov)
  case (Some k)
  then show ?thesis by (simp add: compute_attempts_def)
next
  case None
  from assms(3) have "2 \<le> hi - lo + 1" by simp
  with assms(1,2) obtain l where l: "math_log2 L (hi - lo + 1) = Inr l" "0 < l"
    using math_log2_positive by blast
  from l(2) have "1 \<le> \<lceil>l\<rceil>" by linarith
  with None l(1) show ?thesis by (simp add: compute_attempts_def Let_def)
qed

lemma exact_log2_positive:
  "\<forall>x. 2 \<le> x \<longrightarrow> 0 < log2_double exact_log2 x"
  "\<forall>n. 2 \<le> n \<longrightarrow> 0 < log2_bigint exact_log2 n"
  by (simp_all add: exact_log2_def)

lemma log2_gap: "1 / 2 ^ 40 < log 2 (1 + 1 / 2 ^ 32 :: real)"
proof -
  define N :: nat where "N = 2 ^ 40"
  define a :: real where "a = 1 + 1 / 2 ^ 32"
  have a1: "1 < a" by (simp add: a_def)
  have "1 + real N * (1 / 2 ^ 32) \<le> (1 + 1 / 2 ^ 32) ^ N"
    by (rule Bernoulli_inequality) simp
  moreover have "real N * (1 / 2 ^ 32) = 256" by (simp add: N_def)
  ultimately have "2 < a ^ N" by (simp add: a_def)
  moreover have "0 < a ^ N" using a1 by simp
  ultimately have "log 2 2 < log 2 (a ^ N)" by simp
  then have "1 < real N * log 2 a" using a1 by (simp add: log_nat_power)
  moreover have "real N = 2 ^ 40" by (simp add: N_def)
  ultimately have "1 < 2 ^ 40 * log 2 a" by simp
  then have "1 / 2 ^ 40 < log 2 a" by (simp add: field_simps)
  then show ?thesis by (simp add: a_def)
qed

lemma ceiling_log2_accurate:
  fixes n :: nat
  assumes acc: "accurate_log2 L" and n2: "2 \<le> n" and n32: "n \<le> 2 ^ 32"
  shows "\<lceil>log2_double L (real n)\<rceil> = \<lceil>log 2 (real n)\<rceil>"
proof -
  define j where "j = bit_length n - 1"
  from n2 have n0: "n \<noteq> 0" by simp
  then have bl: "bit_length n = Suc j" by (simp add: j_def bit_length.simps [of n])
  have lo: "2 ^ j \<le> n" using bit_length_lower [OF n0] by (simp add: j_def)
  have hi: "n < 2 ^ Suc j" using bit_length_upper [of n] by (simp only: bl)
  show ?thesis
  proof (cases "n = 2 ^ j")
    case True
    then have r: "real n = 2 ^ j" by simp
    from acc have "log2_double L (2 ^ j) = real j" by (simp add: accurate_log2_def)
    moreover have "log 2 ((2::real) ^ j) = real j" by simp
    ultimately show ?thesis by (simp only: r)
  next
    case False
    with lo have lt: "2 ^ j < n" by simp
    from lt n32 have "(2::nat) ^ j < 2 ^ 32" by (rule less_le_trans)
    then have j32: "j < 32" by (rule power_less_imp_less_exp [rotated]) simp
    define a :: real where "a = 1 + 1 / 2 ^ 32"
    define dl where "dl = log 2 a"
    have a0: "0 < a" by (simp add: a_def)
    have gap: "1 / 2 ^ 40 < dl" unfolding dl_def a_def by (rule log2_gap)
    have pj: "(2::real) ^ j \<le> 2 ^ 32" using j32 by (intro power_increasing) simp_all
    have rn: "(2::real) ^ j + 1 \<le> real n"
    proof -
      from lt have "2 ^ j + 1 \<le> n" by simp
      then have "real (2 ^ j + 1) \<le> real n" by (simp only: of_nat_le_iff)
      then show ?thesis by simp
    qed
    have rn1: "real n + 1 \<le> 2 ^ Suc j"
    proof -
      from hi have "n + 1 \<le> 2 ^ Suc j" by simp
      then have "real (n + 1) \<le> real (2 ^ Suc j)" by (simp only: of_nat_le_iff)
      then show ?thesis by simp
    qed
    have rn32: "real n \<le> 2 ^ 32"
    proof -
      from n32 have "real n \<le> real (2 ^ 32)" by (simp only: of_nat_le_iff)
      then show ?thesis by simp
    qed
    have npos: "0 < real n" using n2 by simp
    have A: "real j + dl \<le> log 2 (real n)"
    proof -
      have "2 ^ j * a = 2 ^ j + 2 ^ j / 2 ^ 32" by (simp add: a_def algebra_simps)
      also have "\<dots> \<le> 2 ^ j + 1" using pj by simp
      also have "\<dots> \<le> real n" by (rule rn)
      finally have "2 ^ j * a \<le> real n" .
      moreover have "0 < 2 ^ j * a" using a0 by simp
      ultimately have "log 2 (2 ^ j * a) \<le> log 2 (real n)" using npos by simp
      moreover have "log 2 (2 ^ j * a) = real j + dl"
        using a0 by (simp add: log_mult_pos dl_def)
      ultimately show ?thesis by simp
    qed
    have B: "log 2 (real n) + dl \<le> real j + 1"
    proof -
      have "real n * a = real n + real n / 2 ^ 32" by (simp add: a_def algebra_simps)
      also have "\<dots> \<le> real n + 1" using rn32 by simp
      also have "\<dots> \<le> 2 ^ Suc j" by (rule rn1)
      finally have "real n * a \<le> 2 ^ Suc j" .
      moreover have "0 < real n * a" using a0 npos by simp
      ultimately have "log 2 (real n * a) \<le> log 2 ((2::real) ^ Suc j)" by simp
      moreover have "log 2 (real n * a) = log 2 (real n) + dl"
        using a0 npos by (simp add: log_mult_pos dl_def)
      moreover have "log 2 ((2::real) ^ Suc j) = real j + 1"
        using log_pow_cancel [of "2::real" "Suc j"] by (simp del: power_Suc)
      ultimately show ?thesis by simp
    qed
    define e :: real where "e = 1 / 2 ^ 40"
    have gap': "e < dl" using gap by (simp only: e_def)
    have "1 \<le> real n" using n2 by simp
    with acc have err: "\<bar>log2_double L (real n) - log 2 (real n)\<bar> \<le> e"
      by (simp add: accurate_log2_def e_def)
    have b1: "real j < log2_double L (real n)" "log2_double L (real n) \<le> real j + 1"
      using A B gap' err by linarith+
    have c1: "\<lceil>log2_double L (real n)\<rceil> = int j + 1"
      by (rule ceiling_eq) (simp_all add: b1)
    have b2: "real j < log 2 (real n)" "log 2 (real n) \<le> real j + 1"
      using A B gap' err by linarith+
    have c2: "\<lceil>log 2 (real n)\<rceil> = int j + 1"
      by (rule ceiling_eq) (simp_all add: b2)
    from c1 c2 show ?thesis by simp
  qed
qed

lemma math_log2_small:
  "1 \<le> R \<Longrightarrow> R < 2 ^ 53 \<Longrightarrow> math_log2 L R = Inr (log2_double L (real_of_int R))"
  by (simp add: math_log2_def float_of_int_exact)

lemma math_log2_defined: "1 \<le> R \<Longrightarrow> \<exists>l. math_log2 L R = Inr l"
  by (cases "float_of_int R") (simp_all add: math_log2_def)

lemma compute_attempts_none:
  "math_log2 L (hi - lo + 1) = Inr l \<Longrightarrow>
   compute_attempts L lo hi d None =
     Inr (\<lceil>l\<rceil> + (if d = ''easy'' then 2 else if d = ''normal'' then 1 else 0))"
  by (simp add: compute_attempts_def Let_def)

lemma compute_attempts_accurate:
  assumes acc: "accurate_log2 L" and r: "lo < hi" and r32: "hi - lo + 1 \<le> 2 ^ 32"
  shows "compute_attempts L lo hi d None =
     Inr (\<lceil>log 2 (real_of_int (hi - lo + 1))\<rceil>
          + (if d = ''easy'' then 2 else if d = ''normal'' then 1 else 0))"
proof -
  define n where "n = nat (hi - lo + 1)"
  have R: "hi - lo + 1 = int n" and n2: "2 \<le> n" and n32: "n \<le> 2 ^ 32"
    using r r32 by (simp_all add: n_def nat_le_iff)
  have "math_log2 L (int n) = Inr (log2_double L (real_of_int (int n)))"
    using n2 n32 by (intro math_log2_small) simp_all
  then have m: "math_log2 L (hi - lo + 1) = Inr (log2_double L (real n))" by (simp add: R)
  have "\<lceil>log2_double L (real n)\<rceil> = \<lceil>log 2 (real n)\<rceil>"
    using acc n2 n32 by (rule ceiling_log2_accurate)
  with compute_attempts_none [OF m, of d] show ?thesis by (simp add: R)
qed

lemma ceiling_log2_100: "\<lceil>log 2 (100::real)\<rceil> = 7"
proof (rule ceiling_unique)
  have "real 6 < log 2 (real 100)" by (rule less_log2_of_power) simp
  then show "of_int 7 - 1 < log 2 (100::real)" by simp
  have "log 2 (real 100) \<le> real 7" by (rule log2_of_power_le) simp_all
  then show "log 2 (100::real) \<le> of_int 7" by simp
qed

lemma accurate_exact_log2: "accurate_log2 exact_log2"
  by (simp add: accurate_log2_def exact_log2_def)

lemma float_of_int_2_53: "float_of_int (2 ^ 53) = Inr (2 ^ 53)"
proof -
  have "round_sig (2 ^ 53) = round_half_even (2 ^ 53) 1 * 2 ^ 1"
    by (rule round_sig_at) simp_all
  then have "round_sig 9007199254740992 = 9007199254740992"
    by (simp add: round_half_even_def)
  then show ?thesis by (simp add: float_of_int_def)
qed

lemma float_of_int_2_53_1: "float_of_int (2 ^ 53 + 1) = Inr (2 ^ 53)"
proof -
  have "round_sig (2 ^ 53 + 1) = round_half_even (2 ^ 53 + 1) 1 * 2 ^ 1"
    by (rule round_sig_at) simp_all
  then have "round_sig 9007199254740993 = 9007199254740992"
    by (simp add: round_half_even_def)
  then show ?thesis by (simp add: float_of_int_def)
qed

lemma ceiling_log2_2_53: "\<lceil>log 2 ((2::real) ^ 53)\<rceil> = 53"
  using log_pow_cancel [of "2::real" 53] by (simp del: power_numeral)

lemma ceiling_log2_2_53_1: "\<lceil>log 2 ((2::real) ^ 53 + 1)\<rceil> = 54"
proof (rule ceiling_unique)
  have "real 53 < log 2 (real (2 ^ 53 + 1))" by (rule less_log2_of_power) simp
  then show "of_int 54 - 1 < log 2 ((2::real) ^ 53 + 1)" by simp
  have "log 2 (real (2 ^ 53 + 1)) \<le> real 54" by (rule log2_of_power_le) simp_all
  then show "log 2 ((2::real) ^ 53 + 1) \<le> of_int 54" by simp
qed

text \<open>
  C3 (amended): with an override \<open>k\<close> the budget is \<open>max 1 k\<close>, whatever the range and
  the difficulty. Without one, for \<open>lo < hi\<close> it is \<open>\<lceil>l\<rceil> + 2\<close> for easy, \<open>\<lceil>l\<rceil> + 1\<close> for
  normal and \<open>\<lceil>l\<rceil>\<close> for any other difficulty, where \<open>l\<close> is the double that
  \<^verbatim>\<open>math.log2\<close> returns for \<open>R = hi - lo + 1\<close>, itself first rounded to a double. With
  a library that is exact on the powers of two and within \<open>2 ^ -40\<close> of the logarithm,
  \<open>\<lceil>l\<rceil>\<close> is \<open>\<lceil>log 2 R\<rceil>\<close> for every \<open>R \<le> 2 ^ 32\<close>; in particular the range
  \<open>1 .. 100\<close> at normal difficulty gets 8 attempts.
\<close>

theorem compute_attempts_budget:
  "compute_attempts L lo hi d (Some k) = Inr (max 1 k)
   \<and> (lo < hi \<longrightarrow>
        (\<exists>l. math_log2 L (hi - lo + 1) = Inr l
           \<and> compute_attempts L lo hi d None =
               Inr (\<lceil>l\<rceil> + (if d = ''easy'' then 2 else if d = ''normal'' then 1 else 0))))
   \<and> (accurate_log2 L \<and> lo < hi \<and> hi - lo + 1 \<le> 2 ^ 32 \<longrightarrow>
        compute_attempts L lo hi d None =
          Inr (\<lceil>log 2 (real_of_int (hi - lo + 1))\<rceil>
               + (if d = ''easy'' then 2 else if d = ''normal'' then 1 else 0)))
   \<and> (accurate_log2 L \<longrightarrow> compute_attempts L 1 100 ''normal'' None = Inr 8)"
proof (intro conjI impI)
  show "compute_attempts L lo hi d (Some k) = Inr (max 1 k)"
    by (simp add: compute_attempts_def)
next
  assume "lo < hi"
  then have "1 \<le> hi - lo + 1" by simp
  then obtain l where "math_log2 L (hi - lo + 1) = Inr l"
    using math_log2_defined by blast
  with compute_attempts_none [OF this, of d]
  show "\<exists>l. math_log2 L (hi - lo + 1) = Inr l
           \<and> compute_attempts L lo hi d None =
               Inr (\<lceil>l\<rceil> + (if d = ''easy'' then 2 else if d = ''normal'' then 1 else 0))"
    by blast
next
  assume "accurate_log2 L \<and> lo < hi \<and> hi - lo + 1 \<le> 2 ^ 32"
  then show "compute_attempts L lo hi d None =
          Inr (\<lceil>log 2 (real_of_int (hi - lo + 1))\<rceil>
               + (if d = ''easy'' then 2 else if d = ''normal'' then 1 else 0))"
    by (intro compute_attempts_accurate) simp_all
next
  assume "accurate_log2 L"
  then have "compute_attempts L 1 100 ''normal'' None =
      Inr (\<lceil>log 2 (real_of_int (100 - 1 + 1))\<rceil>
           + (if ''normal'' = ''easy'' then 2 else if ''normal'' = ''normal'' then 1 else 0))"
    by (rule compute_attempts_accurate) simp_all
  then show "compute_attempts L 1 100 ''normal'' None = Inr 8"
    by (simp add: ceiling_log2_100)
qed

text \<open>The exact logarithm as the library, on the range \<open>1 .. 100\<close>.\<close>

theorem compute_attempts_budget_witness:
  "accurate_log2 exact_log2 \<and> (1::int) < 100 \<and> (100::int) - 1 + 1 \<le> 2 ^ 32
   \<and> compute_attempts exact_log2 1 100 ''hard'' (Some 0) = Inr 1
   \<and> compute_attempts exact_log2 1 100 ''easy'' None = Inr 9
   \<and> compute_attempts exact_log2 1 100 ''normal'' None = Inr 8"
  using compute_attempts_budget [of exact_log2 1 100 "''easy''" 0]
    compute_attempts_budget [of exact_log2 1 100 "''hard''" 0]
    accurate_exact_log2
  by (simp add: ceiling_log2_100)

text \<open>
  C3 as stated fails whatever the library computes: the ranges \<open>0 .. 2 ^ 53 - 1\<close> and
  \<open>0 .. 2 ^ 53\<close> have \<open>2 ^ 53\<close> and \<open>2 ^ 53 + 1\<close> numbers, which are the same double, so
  that \<^verbatim>\<open>math.log2\<close> returns the same for both, and the budgets at hard difficulty are
  equal; \<open>\<lceil>log 2 (2 ^ 53)\<rceil>\<close> is 53 and \<open>\<lceil>log 2 (2 ^ 53 + 1)\<rceil>\<close> is 54.
\<close>

theorem compute_attempts_log2_counterexample:
  "\<not> (\<exists>L. compute_attempts L 0 (2 ^ 53 - 1) ''hard'' None = Inr \<lceil>log 2 (2 ^ 53)\<rceil>
          \<and> compute_attempts L 0 (2 ^ 53) ''hard'' None = Inr \<lceil>log 2 (2 ^ 53 + 1)\<rceil>)"
proof
  assume "\<exists>L. compute_attempts L 0 (2 ^ 53 - 1) ''hard'' None = Inr \<lceil>log 2 (2 ^ 53)\<rceil>
          \<and> compute_attempts L 0 (2 ^ 53) ''hard'' None = Inr \<lceil>log 2 (2 ^ 53 + 1)\<rceil>"
  then obtain L where
    a: "compute_attempts L 0 (2 ^ 53 - 1) ''hard'' None = Inr \<lceil>log 2 (2 ^ 53)\<rceil>" and
    b: "compute_attempts L 0 (2 ^ 53) ''hard'' None = Inr \<lceil>log 2 (2 ^ 53 + 1)\<rceil>"
    by blast
  have m1: "math_log2 L (2 ^ 53 - 1 - 0 + 1) = Inr (log2_double L (real_of_int (2 ^ 53)))"
    using float_of_int_2_53 by (simp add: math_log2_def)
  have m2: "math_log2 L (2 ^ 53 - 0 + 1) = Inr (log2_double L (real_of_int (2 ^ 53)))"
    using float_of_int_2_53_1 by (simp add: math_log2_def)
  from compute_attempts_none [OF m1, of "''hard''"] a
  have "\<lceil>log2_double L (real_of_int (2 ^ 53))\<rceil> = \<lceil>log 2 ((2::real) ^ 53)\<rceil>"
    by (simp del: power_numeral)
  moreover from compute_attempts_none [OF m2, of "''hard''"] b
  have "\<lceil>log2_double L (real_of_int (2 ^ 53))\<rceil> = \<lceil>log 2 ((2::real) ^ 53 + 1)\<rceil>"
    by (simp del: power_numeral)
  ultimately show False
    by (simp only: ceiling_log2_2_53 ceiling_log2_2_53_1)
qed

text \<open>
  C10: for a library whose \<^verbatim>\<open>log2\<close> is positive from 2 on, the budget of a range with
  \<open>lo < hi\<close> is at least 1, for every difficulty and with or without an override; so
  once the range check of \<^verbatim>\<open>main\<close> has passed, \<^verbatim>\<open>main\<close> does not leave with the
  message that the number of attempts must be at least 1, and \<^verbatim>\<open>compute_attempts\<close>
  raises nothing.
\<close>

theorem attempts_at_least_one:
  assumes "\<forall>x. 2 \<le> x \<longrightarrow> 0 < log2_double L x" and "\<forall>n. 2 \<le> n \<longrightarrow> 0 < log2_bigint L n"
  shows "(lo < hi \<longrightarrow> (\<exists>n. compute_attempts L lo hi d ov = Inr n \<and> 1 \<le> n))
    \<and> (min_v args < max_v args \<longrightarrow>
         main_checks L args \<noteq> Inr (Some (ConfigErrorAttempts, 2))
         \<and> (\<exists>r. main_checks L args = Inr r))"
proof (intro conjI impI)
  assume "lo < hi"
  with assms show "\<exists>n. compute_attempts L lo hi d ov = Inr n \<and> 1 \<le> n"
    by (rule compute_attempts_positive)
next
  assume r: "min_v args < max_v args"
  with assms obtain n where
    n: "compute_attempts L (min_v args) (max_v args) (difficulty args) (attempts args) = Inr n"
       "1 \<le> n"
    using compute_attempts_positive by blast
  then show "main_checks L args \<noteq> Inr (Some (ConfigErrorAttempts, 2))"
    by (simp add: main_checks_def)
  from n r show "\<exists>r. main_checks L args = Inr r"
    by (simp add: main_checks_def)
qed

text \<open>
  The exact logarithm is positive from 2 on: the range \<open>1 .. 100\<close> at hard difficulty,
  and the checks of \<^verbatim>\<open>main\<close> on the range \<open>1 .. 10\<close>, both without an override.
\<close>

theorem attempts_at_least_one_witness:
  "(\<exists>n. compute_attempts exact_log2 1 100 ''hard'' None = Inr n \<and> 1 \<le> n)
   \<and> main_checks exact_log2 (example_config\<lparr>attempts := None\<rparr>) = Inr None"
proof -
  have a: "\<exists>n. compute_attempts exact_log2 1 100 ''hard'' None = Inr n \<and> 1 \<le> n"
    using attempts_at_least_one [OF exact_log2_positive, of 1 100 "''hard''" None] by simp
  have "main_checks exact_log2 (example_config\<lparr>attempts := None\<rparr>)
      \<noteq> Inr (Some (ConfigErrorAttempts, 2))
    \<and> (\<exists>r. main_checks exact_log2 (example_config\<lparr>attempts := None\<rparr>) = Inr r)"
    using attempts_at_least_one [OF exact_log2_positive, of 1 1 "''x''" None
        "example_config\<lparr>attempts := None\<rparr>"]
    by (simp add: example_config_def)
  then have "main_checks exact_log2 (example_config\<lparr>attempts := None\<rparr>) = Inr None"
    by (auto simp: main_checks_def example_config_def split: sum.splits if_splits)
  with a show ?thesis by simp
qed

end
